theory Spec2Isabelle
  imports Complex_Main
begin

section \<open>Python values: exceptions, dictionaries, bounded deques\<close>

text \<open>
  The exceptions the two scripts (\<^verbatim>\<open>eeg_four_band_plot.py\<close>, \<^verbatim>\<open>bulb_bci.py\<close>) and the
  library routines they call can raise. A function that may raise returns
  \<open>py_error + 'a\<close>, with \<open>Inl\<close> for the exception.
\<close>

datatype py_error =
  ValueError | ZeroDivisionError | KeyError | IndexError | OverflowError | LinAlgError

text \<open>
  A Python \<^verbatim>\<open>dict\<close> keeps its keys in insertion order: an association list with
  \<open>d[k]\<close> (raising \<^verbatim>\<open>KeyError\<close>) and \<open>d[k] = v\<close> (in place for a known key, at the
  end for a new one).
\<close>

fun dict_get :: "('k \<times> 'v) list \<Rightarrow> 'k \<Rightarrow> py_error + 'v" where
  "dict_get [] k = Inl KeyError"
| "dict_get ((k', v) # d) k = (if k' = k then Inr v else dict_get d k)"

fun dict_set :: "('k \<times> 'v) list \<Rightarrow> 'k \<Rightarrow> 'v \<Rightarrow> ('k \<times> 'v) list" where
  "dict_set [] k v = [(k, v)]"
| "dict_set ((k', v') # d) k v =
     (if k' = k then (k, v) # d else (k', v') # dict_set d k v)"

text \<open>
  \<^verbatim>\<open>collections.deque(maxlen=N)\<close>: \<^verbatim>\<open>append\<close> adds on the right and, when the deque
  has grown past \<^verbatim>\<open>maxlen\<close>, discards one element on the left.
\<close>

record 'a deque =
  maxlen :: nat
  items :: "'a list"

definition deque_new :: "nat \<Rightarrow> 'a deque" where
  "deque_new n = \<lparr>maxlen = n, items = []\<rparr>"

definition deque_append :: "'a deque \<Rightarrow> 'a \<Rightarrow> 'a deque" where
  "deque_append d x =
     (let xs = items d @ [x]
      in d\<lparr>items := (if maxlen d < length xs then tl xs else xs)\<rparr>)"

section \<open>The filter bank of \<^verbatim>\<open>eeg_four_band_plot.py\<close>\<close>

subsection \<open>Second-order sections (\<^verbatim>\<open>scipy.signal.sosfilt\<close>)\<close>

text \<open>
  One row of the \<^verbatim>\<open>sos\<close> array that \<^verbatim>\<open>signal.butter(..., output="sos")\<close> returns:
  the numerator \<open>b0, b1, b2\<close> and the denominator \<open>1, a1, a2\<close>. The array's fourth
  column is 1 in every row \<^verbatim>\<open>butter\<close> builds and \<^verbatim>\<open>sosfilt\<close> never reads it, so a
  row is kept as its five free coefficients. The coefficient type \<open>'a\<close> stands for
  Python's \<^verbatim>\<open>float\<close>; the filter only adds, subtracts and multiplies, and nothing
  below assumes a law of these operations unless a class constraint says so.
\<close>

datatype 'a biquad = Biquad (b0: 'a) (b1: 'a) (b2: 'a) (a1: 'a) (a2: 'a)

text \<open>
  \<^verbatim>\<open>sosfilt\<close>'s inner loop (direct form II transposed), for one sample \<open>x_cur\<close>, over
  the sections and their two delay values:
  \<^verbatim>\<open>
    x_new    = sos[s,0] * x_cur + zi[s,0]
    zi[s,0]  = sos[s,1] * x_cur - sos[s,4] * x_new + zi[s,1]
    zi[s,1]  = sos[s,2] * x_cur - sos[s,5] * x_new
    x_cur    = x_new
  \<close>
\<close>

fun sos_sections ::
  "('a::{plus,minus,times}) biquad list \<Rightarrow> ('a \<times> 'a) list \<Rightarrow> 'a \<Rightarrow> 'a \<times> ('a \<times> 'a) list"
where
  "sos_sections (s # ss) ((z0, z1) # zs) x_cur =
     (let x_new = b0 s * x_cur + z0;
          z0' = b1 s * x_cur - a1 s * x_new + z1;
          z1' = b2 s * x_cur - a2 s * x_new;
          (y, zs') = sos_sections ss zs x_new
      in (y, (z0', z1') # zs'))"
| "sos_sections _ _ x_cur = (x_cur, [])"

text \<open>The outer loop over the samples of the signal.\<close>

fun sos_samples ::
  "('a::{plus,minus,times}) biquad list \<Rightarrow> ('a \<times> 'a) list \<Rightarrow> 'a list
     \<Rightarrow> 'a list \<times> ('a \<times> 'a) list"
where
  "sos_samples sos z [] = ([], z)"
| "sos_samples sos z (x # xs) =
     (let (y, z') = sos_sections sos z x;
          (ys, z'') = sos_samples sos z' xs
      in (y # ys, z''))"

text \<open>
  \<^verbatim>\<open>signal.sosfilt(sos, x, zi=zi)\<close> on a one-dimensional signal: a \<^verbatim>\<open>ValueError\<close>
  when \<open>zi\<close> has not the shape \<open>(n_sections, 2)\<close>, else the filtered signal and the
  final delay values.
\<close>

definition sosfilt ::
  "('a::{plus,minus,times}) biquad list \<Rightarrow> 'a list \<Rightarrow> ('a \<times> 'a) list
     \<Rightarrow> py_error + ('a list \<times> ('a \<times> 'a) list)"
where
  "sosfilt sos x z =
     (if length z \<noteq> length sos then Inl ValueError else Inr (sos_samples sos z x))"

subsection \<open>\<^verbatim>\<open>class FourBandFilters\<close>\<close>

record 'a FourBandFilters =
  sample_rate :: int
  nyquist :: 'a
  filters :: "(string \<times> 'a biquad list) list"
  zi :: "(string \<times> ('a \<times> 'a) list) list"

text \<open>
  \<^verbatim>\<open>FourBandFilters.apply\<close>: the loop over \<^verbatim>\<open>self.filters.items()\<close>, threading the
  dictionary \<^verbatim>\<open>self.zi\<close> and the result \<^verbatim>\<open>out\<close>; \<^verbatim>\<open>y[0]\<close> raises on an empty \<open>y\<close>.
\<close>

fun apply_loop ::
  "(string \<times> ('a::{plus,minus,times}) biquad list) list \<Rightarrow> (string \<times> ('a \<times> 'a) list) list
     \<Rightarrow> 'a \<Rightarrow> (string \<times> 'a) list
     \<Rightarrow> py_error + ((string \<times> 'a) list \<times> (string \<times> ('a \<times> 'a) list) list)"
where
  "apply_loop [] zis sample out = Inr (out, zis)"
| "apply_loop ((name, sos) # rest) zis sample out =
     (case dict_get zis name of
        Inl e \<Rightarrow> Inl e
      | Inr z \<Rightarrow>
          (case sosfilt sos [sample] z of
             Inl e \<Rightarrow> Inl e
           | Inr (y, z') \<Rightarrow>
               (case y of
                  [] \<Rightarrow> Inl IndexError
                | y0 # _ \<Rightarrow> apply_loop rest (dict_set zis name z') sample (dict_set out name y0))))"

definition FourBandFilters_apply ::
  "('a::{plus,minus,times}) FourBandFilters \<Rightarrow> 'a
     \<Rightarrow> py_error + ((string \<times> 'a) list \<times> 'a FourBandFilters)"
where
  "FourBandFilters_apply self sample =
     (case apply_loop (filters self) (zi self) sample [] of
        Inl e \<Rightarrow> Inl e
      | Inr (out, zis) \<Rightarrow> Inr (out, self\<lparr>zi := zis\<rparr>))"

text \<open>Feeding a sequence of samples through \<^verbatim>\<open>apply\<close>, one call per sample.\<close>

fun apply_each ::
  "('a::{plus,minus,times}) FourBandFilters \<Rightarrow> 'a list
     \<Rightarrow> py_error + ((string \<times> 'a) list list \<times> 'a FourBandFilters)"
where
  "apply_each self [] = Inr ([], self)"
| "apply_each self (x # xs) =
     (case FourBandFilters_apply self x of
        Inl e \<Rightarrow> Inl e
      | Inr (out, self') \<Rightarrow>
          (case apply_each self' xs of
             Inl e \<Rightarrow> Inl e
           | Inr (outs, self'') \<Rightarrow> Inr (out # outs, self'')))"

text \<open>
  The shape invariant the constructor sets up and \<^verbatim>\<open>apply\<close> keeps: the keys of
  \<^verbatim>\<open>self.filters\<close> are distinct (it is a dictionary) and every band has delay values
  of its filter's shape in \<^verbatim>\<open>self.zi\<close>.
\<close>

definition shapes_ok ::
  "(string \<times> 'a biquad list) list \<Rightarrow> (string \<times> ('a \<times> 'a) list) list \<Rightarrow> bool"
where
  "shapes_ok fs zis =
     list_all (\<lambda>(name, sos).
        (case dict_get zis name of Inl e \<Rightarrow> False | Inr z \<Rightarrow> length z = length sos)) fs"

definition bank_ok :: "'a FourBandFilters \<Rightarrow> bool" where
  "bank_ok self = (distinct (map fst (filters self)) \<and> shapes_ok (filters self) (zi self))"

subsection \<open>\<^verbatim>\<open>FourBandFilters.__init__\<close>\<close>

text \<open>
  The constructor and the routines it calls divide and compare, so their coefficient type
  is an ordered field: Python's \<^verbatim>\<open>float\<close> without rounding. What the exact arithmetic
  shares with doubles is the outcome of every comparison the constructor makes on its
  way (the sample rate is an integer, the cutoffs are fixed); the coefficients and delay
  values themselves are those of exact arithmetic, which doubles only approximate.

  \<^verbatim>\<open>sample_rate / 2.0\<close> first converts the integer to a float and raises
  \<^verbatim>\<open>OverflowError\<close> when it is too large for one: when its magnitude reaches
  \<open>2\<^sup>1\<^sup>0\<^sup>2\<^sup>4 - 2\<^sup>9\<^sup>7\<^sup>0\<close>, which rounds to \<open>2\<^sup>1\<^sup>0\<^sup>2\<^sup>4\<close>.
\<close>

definition float_limit :: int where
  "float_limit = 2 ^ 1024 - 2 ^ 970"

definition int_to_float :: "int \<Rightarrow> py_error + ('a::linordered_field)" where
  "int_to_float n = (if float_limit \<le> \<bar>n\<bar> then Inl OverflowError else Inr (of_int n))"

text \<open>

  \<^verbatim>\<open>signal.butter(N, [lo_n, hi_n], btype="band", output="sos")\<close>. SciPy checks the
  critical frequencies before it designs anything and raises \<^verbatim>\<open>ValueError\<close> unless
  \<open>0 < Wn < 1\<close> and \<open>Wn[0] < Wn[1]\<close>. The design itself (poles, bilinear transform,
  pairing into sections) is the parameter \<open>design\<close>.
\<close>

definition butter ::
  "(nat \<Rightarrow> 'a \<Rightarrow> 'a \<Rightarrow> 'a biquad list) \<Rightarrow> nat \<Rightarrow> ('a::linordered_field) \<Rightarrow> 'a
     \<Rightarrow> py_error + 'a biquad list"
where
  "butter design N lo_n hi_n =
     (if lo_n \<le> 0 \<or> hi_n \<le> 0 then Inl ValueError
      else if \<not> lo_n < hi_n then Inl ValueError
      else if 1 \<le> lo_n \<or> 1 \<le> hi_n then Inl ValueError
      else Inr (design N lo_n hi_n))"

text \<open>
  \<^verbatim>\<open>signal.lfilter_zi(b, a)\<close> for one section \<open>b = [b0, b1, b2]\<close>, \<open>a = [1, a1, a2]\<close>:
  the solution \<open>zi\<close> of \<open>(I - A\<^sup>T) zi = B\<close> with the companion matrix \<open>A\<close> of \<open>a\<close> and
  \<open>B = b[1:] - a[1:] * b[0]\<close>, that is of
  \<^verbatim>\<open>
    (1 + a1) * z0 - z1 = b1 - a1 * b0
    a2 * z0       + z1 = b2 - a2 * b0
  \<close>
  \<^verbatim>\<open>numpy.linalg.solve\<close> raises \<^verbatim>\<open>LinAlgError\<close> on a singular matrix (determinant
  \<open>1 + a1 + a2\<close>).
\<close>

definition lfilter_zi :: "('a::field) biquad \<Rightarrow> py_error + ('a \<times> 'a)" where
  "lfilter_zi s =
     (let det = 1 + a1 s + a2 s;
          B0 = b1 s - a1 s * b0 s;
          B1 = b2 s - a2 s * b0 s
      in if det = 0 then Inl LinAlgError
         else Inr ((B0 + B1) / det, ((1 + a1 s) * B1 - a2 s * B0) / det))"

text \<open>
  \<^verbatim>\<open>signal.sosfilt_zi(sos)\<close>:
  \<^verbatim>\<open>
    scale = 1.0
    for section in range(n_sections):
        b = sos[section, :3]; a = sos[section, 3:]
        zi[section] = scale * lfilter_zi(b, a)
        scale *= b.sum() / a.sum()
  \<close>
\<close>

fun sosfilt_zi_loop :: "('a::field) \<Rightarrow> 'a biquad list \<Rightarrow> py_error + ('a \<times> 'a) list" where
  "sosfilt_zi_loop scale [] = Inr []"
| "sosfilt_zi_loop scale (s # ss) =
     (case lfilter_zi s of
        Inl e \<Rightarrow> Inl e
      | Inr (z0, z1) \<Rightarrow>
          (case sosfilt_zi_loop (scale * ((b0 s + b1 s + b2 s) / (1 + a1 s + a2 s))) ss of
             Inl e \<Rightarrow> Inl e
           | Inr zs \<Rightarrow> Inr ((scale * z0, scale * z1) # zs)))"

definition sosfilt_zi :: "('a::field) biquad list \<Rightarrow> py_error + ('a \<times> 'a) list" where
  "sosfilt_zi sos = sosfilt_zi_loop 1 sos"

definition bands_hz :: "(string \<times> ('a::field) \<times> 'a) list" where
  "bands_hz =
     [(''delta'', (1 / 2, 4)),
      (''alpha'', (8, 13)),
      (''beta'', (13, 30)),
      (''gamma'', (30, 100))]"

text \<open>
  The constructor's loop over \<^verbatim>\<open>bands_hz.items()\<close>. Python's float division raises
  \<^verbatim>\<open>ZeroDivisionError\<close> on a zero divisor.
\<close>

fun init_loop ::
  "(nat \<Rightarrow> 'a \<Rightarrow> 'a \<Rightarrow> 'a biquad list) \<Rightarrow> ('a::linordered_field)
     \<Rightarrow> (string \<times> 'a \<times> 'a) list
     \<Rightarrow> (string \<times> 'a biquad list) list \<Rightarrow> (string \<times> ('a \<times> 'a) list) list
     \<Rightarrow> py_error + ((string \<times> 'a biquad list) list \<times> (string \<times> ('a \<times> 'a) list) list)"
where
  "init_loop design nyq [] fs zis = Inr (fs, zis)"
| "init_loop design nyq ((name, lo, hi) # rest) fs zis =
     (if nyq = 0 then Inl ZeroDivisionError
      else
        (let lo_n = lo / nyq; hi_n = hi / nyq
         in case butter design 4 lo_n hi_n of
              Inl e \<Rightarrow> Inl e
            | Inr sos \<Rightarrow>
                (case sosfilt_zi sos of
                   Inl e \<Rightarrow> Inl e
                 | Inr z \<Rightarrow> init_loop design nyq rest (dict_set fs name sos) (dict_set zis name z))))"

definition FourBandFilters_init ::
  "(nat \<Rightarrow> 'a \<Rightarrow> 'a \<Rightarrow> 'a biquad list) \<Rightarrow> int \<Rightarrow> py_error + ('a::linordered_field) FourBandFilters"
where
  "FourBandFilters_init design sr =
     (case int_to_float sr of
        Inl e \<Rightarrow> Inl e
      | Inr rate \<Rightarrow>
          (let nyq = rate / 2
           in case init_loop design nyq bands_hz [] [] of
                Inl e \<Rightarrow> Inl e
              | Inr (fs, zis) \<Rightarrow>
                  Inr \<lparr>sample_rate = sr, nyquist = nyq, filters = fs, zi = zis\<rparr>))"

text \<open>
  What the constructor needs of the design routine to get through \<^verbatim>\<open>sosfilt_zi\<close>: no
  section it returns has a pole at \<open>z = 1\<close> (a Butterworth design is stable, its poles lie
  inside the unit circle).
\<close>

definition no_pole_at_one :: "(nat \<Rightarrow> ('a::field) \<Rightarrow> 'a \<Rightarrow> 'a biquad list) \<Rightarrow> bool" where
  "no_pole_at_one design =
     (\<forall>N lo hi. list_all (\<lambda>s. 1 + a1 s + a2 s \<noteq> 0) (design N lo hi))"

text \<open>
  Delay values \<open>z\<close> are steady for the constant input \<open>c\<close> when a sample of value \<open>c\<close>
  leaves them as they are: the state the filter is in after an endless run of \<open>c\<close>.
\<close>

definition steady_for :: "('a::{plus,minus,times}) biquad list \<Rightarrow> ('a \<times> 'a) list \<Rightarrow> 'a \<Rightarrow> bool" where
  "steady_for sos z c = (snd (sos_sections sos z c) = z)"

definition bank_steady_for :: "('a::{plus,minus,times}) FourBandFilters \<Rightarrow> 'a \<Rightarrow> bool" where
  "bank_steady_for self c =
     list_all (\<lambda>(name, sos).
        (case dict_get (zi self) name of Inl e \<Rightarrow> False | Inr z \<Rightarrow> steady_for sos z c))
       (filters self)"

text \<open>
  The invariant of the constructor's loop: the keys of \<^verbatim>\<open>self.filters\<close> are distinct and
  \<^verbatim>\<open>self.zi\<close> holds, for every band, \<^verbatim>\<open>sosfilt_zi\<close> of that band's filter.
\<close>

definition tuned :: "(string \<times> ('a::field) biquad list) list \<Rightarrow> (string \<times> ('a \<times> 'a) list) list \<Rightarrow> bool" where
  "tuned fs zis \<longleftrightarrow> distinct (map fst fs) \<and>
     (\<forall>name sos. (name, sos) \<in> set fs \<longrightarrow> (\<exists>z. dict_get zis name = Inr z \<and> sosfilt_zi sos = Inr z))"

text \<open>
  A small stable band-pass design with rational coefficients, used to run the model: one
  section with both zeros at \<open>z = -1\<close>, one with both zeros at \<open>z = 1\<close>.
\<close>

definition example_design :: "nat \<Rightarrow> rat \<Rightarrow> rat \<Rightarrow> rat biquad list" where
  "example_design N lo hi =
     [Biquad (1 / 4) (1 / 2) (1 / 4) (- 1 / 2) (1 / 4),
      Biquad 1 (- 2) 1 (1 / 2) (1 / 4)]"

definition example_bank :: "rat FourBandFilters" where
  "example_bank =
     \<lparr>sample_rate = 250, nyquist = 125,
      filters = [(''delta'', example_design 4 0 0), (''alpha'', [Biquad 1 0 (- 1) 0 (1 / 2)])],
      zi = [(''delta'', [(0, 0), (0, 0)]), (''alpha'', [(- 1, - 1)])]\<rparr>"

text \<open>The bank the constructor builds at 250 Hz from \<open>example_design\<close>.\<close>

definition example_init :: "rat FourBandFilters" where
  "example_init =
     \<lparr>sample_rate = 250, nyquist = 125,
      filters =
        [(''delta'', example_design 4 0 0), (''alpha'', example_design 4 0 0),
         (''beta'', example_design 4 0 0), (''gamma'', example_design 4 0 0)],
      zi =
        [(''delta'', [(13 / 12, - 1 / 12), (- 4 / 3, 4 / 3)]),
         (''alpha'', [(13 / 12, - 1 / 12), (- 4 / 3, 4 / 3)]),
         (''beta'', [(13 / 12, - 1 / 12), (- 4 / 3, 4 / 3)]),
         (''gamma'', [(13 / 12, - 1 / 12), (- 4 / 3, 4 / 3)])]\<rparr>"

section \<open>The hand-off queue and the serial readers\<close>

text \<open>
  \<^verbatim>\<open>queue.Queue(maxsize)\<close>, a FIFO. \<^verbatim>\<open>put\<close> waits while \<open>maxsize > 0\<close> and the queue
  holds \<open>maxsize\<close> items (here \<open>None\<close>: the caller does not get through); with
  \<open>maxsize \<le> 0\<close> the queue has no bound. Both scripts create theirs (\<^verbatim>\<open>val_queue\<close>) with
  \<^verbatim>\<open>queue.Queue()\<close>, whose \<open>maxsize\<close> is the default 0: \<open>Queue_init 0\<close>.
\<close>

record 'a Queue =
  maxsize :: int
  queue :: "'a list"

definition Queue_init :: "int \<Rightarrow> 'a Queue" where
  "Queue_init n = \<lparr>maxsize = n, queue = []\<rparr>"

definition qsize :: "'a Queue \<Rightarrow> nat" where
  "qsize q = length (queue q)"

definition put :: "'a Queue \<Rightarrow> 'a \<Rightarrow> 'a Queue option" where
  "put q item =
     (if 0 < maxsize q \<and> maxsize q \<le> int (qsize q) then None
      else Some (q\<lparr>queue := queue q @ [item]\<rparr>))"

text \<open>
  The producer thread between two polls of the consumer: one \<^verbatim>\<open>put\<close> per parsed sample,
  stopping where a \<^verbatim>\<open>put\<close> would wait.
\<close>

fun put_all :: "'a Queue \<Rightarrow> 'a list \<Rightarrow> 'a Queue" where
  "put_all q [] = q"
| "put_all q (x # xs) = (case put q x of None \<Rightarrow> q | Some q' \<Rightarrow> put_all q' xs)"

text \<open>
  \<^verbatim>\<open>SerialEEGReader.read_latest\<close>:
  \<^verbatim>\<open>
    latest_val = None
    while not self.val_queue.empty():
        latest_val = self.val_queue.get_nowait()
    return latest_val
  \<close>
  on the items queued when it is called.
\<close>

fun read_latest_loop :: "'a list \<Rightarrow> 'a option \<Rightarrow> 'a option \<times> 'a list" where
  "read_latest_loop [] latest_val = (latest_val, [])"
| "read_latest_loop (x # q) latest_val = read_latest_loop q (Some x)"

definition read_latest :: "'a Queue \<Rightarrow> 'a option \<times> 'a Queue" where
  "read_latest q =
     (let (latest_val, rest) = read_latest_loop (queue q) None
      in (latest_val, q\<lparr>queue := rest\<rparr>))"

text \<open>
  The channel's life: the producer puts, the consumer drains (\<^verbatim>\<open>read_latest\<close> in the
  four-band script, the \<^verbatim>\<open>while not val_queue.empty()\<close> loop in the bulb script).
\<close>

datatype 'a channel_op = Put 'a | Drain

fun channel_step :: "'a Queue \<Rightarrow> 'a channel_op \<Rightarrow> 'a Queue" where
  "channel_step q (Put x) = (case put q x of None \<Rightarrow> q | Some q' \<Rightarrow> q')"
| "channel_step q Drain = snd (read_latest q)"

definition channel_run :: "'a channel_op list \<Rightarrow> 'a Queue" where
  "channel_run ops = foldl channel_step (Queue_init 0) ops"

subsection \<open>Parsing a line (\<^verbatim>\<open>SerialEEGReader._read_loop\<close>, \<^verbatim>\<open>serial_reader\<close>)\<close>

text \<open>
  \<^verbatim>\<open>str.strip()\<close> removes white space at both ends. A decoded line is a list of
  characters with code points below 256, of which Python counts these as white space.
\<close>

definition isspace :: "char \<Rightarrow> bool" where
  "isspace c =
     (of_char c \<in> {9, 10, 11, 12, 13, 28, 29, 30, 31, 32, 133, 160 :: nat})"

definition strip :: "string \<Rightarrow> string" where
  "strip s = rev (dropWhile isspace (rev (dropWhile isspace s)))"

text \<open>\<^verbatim>\<open>line.split(",")[0]\<close>: the text before the first comma.\<close>

definition first_field :: "string \<Rightarrow> string" where
  "first_field line = takeWhile (\<lambda>c. c \<noteq> CHR '','') line"

text \<open>
  What one turn of the reader's loop does with the line it read. \<^verbatim>\<open>float(line)\<close> is the
  parameter \<open>float_of\<close>, \<open>None\<close> for the \<^verbatim>\<open>ValueError\<close> it raises on text that is no
  number (the only exception \<^verbatim>\<open>float\<close> raises on a string). \<^verbatim>\<open>readline\<close> may raise
  (the port is gone): the outer \<^verbatim>\<open>except Exception\<close> prints the error and sleeps.
  A turn ends in one of four ways: a value was put on the queue, the line was skipped
  silently, an exception was caught and reported by the outer handler, or an exception
  left the loop (\<open>Raised\<close>).
\<close>

datatype 'v turn = Enqueued 'v | Skipped | Reported py_error | Raised py_error

definition parse_line :: "(string \<Rightarrow> 'v option) \<Rightarrow> string \<Rightarrow> py_error + 'v" where
  "parse_line float_of line =
     (let line = (if CHR '','' \<in> set line then first_field line else line)
      in case float_of line of None \<Rightarrow> Inl ValueError | Some val \<Rightarrow> Inr val)"

definition read_loop_turn :: "(string \<Rightarrow> 'v option) \<Rightarrow> py_error + string \<Rightarrow> 'v turn" where
  "read_loop_turn float_of readline =
     (case readline of
        Inl e \<Rightarrow> Reported e
      | Inr raw \<Rightarrow>
          (let line = strip raw
           in if line = [] then Skipped
              else
                (case parse_line float_of line of
                   Inl e \<Rightarrow> (if e = ValueError then Skipped else Reported e)
                 | Inr val \<Rightarrow> Enqueued val)))"

text \<open>
  \<^verbatim>\<open>serial_reader\<close> of \<^verbatim>\<open>bulb_bci.py\<close>: the same turn, with \<^verbatim>\<open>q.put(val)\<close> after the inner
  \<^verbatim>\<open>try\<close> instead of inside it.
\<close>

definition serial_reader_turn :: "(string \<Rightarrow> 'v option) \<Rightarrow> py_error + string \<Rightarrow> 'v turn" where
  "serial_reader_turn float_of readline =
     (case readline of
        Inl e \<Rightarrow> Reported e
      | Inr raw \<Rightarrow>
          (let line = strip raw
           in if line = [] then Skipped
              else
                (case parse_line float_of line of
                   Inl e \<Rightarrow> (if e = ValueError then Skipped else Reported e)
                 | Inr val \<Rightarrow> Enqueued val)))"

text \<open>The effect of a turn on the queue: only an enqueued value changes it.\<close>

definition turn_queue :: "'v Queue \<Rightarrow> 'v turn \<Rightarrow> 'v Queue" where
  "turn_queue q t = (case t of Enqueued val \<Rightarrow> put_all q [val] | _ \<Rightarrow> q)"

text \<open>A toy \<^verbatim>\<open>float\<close> for running the model: it reads unsigned decimal integers only.\<close>

definition digit_value :: "char \<Rightarrow> int" where
  "digit_value c = int (of_char c) - 48"

definition example_float :: "string \<Rightarrow> int option" where
  "example_float s =
     (if s \<noteq> [] \<and> list_all (\<lambda>c. 0 \<le> digit_value c \<and> digit_value c \<le> 9) s
      then Some (foldl (\<lambda>n c. 10 * n + digit_value c) 0 s) else None)"

section \<open>The consumer loops of \<^verbatim>\<open>eeg_four_band_plot.py\<close>\<close>

definition SAMPLE_RATE :: int where
  "SAMPLE_RATE = 250"

definition BUFFER_SIZE :: nat where
  "BUFFER_SIZE = 2000"

text \<open>
  The variables \<^verbatim>\<open>main\<close> and \<^verbatim>\<open>main_fall\<close> share: the filter bank, the raw buffer and
  the dictionary of the four band buffers. Figures, axes and printing are left out.
\<close>

record 'a plot_state =
  bank :: "'a FourBandFilters"
  raw_buffer :: "'a deque"
  band_buffers :: "(string \<times> 'a deque) list"

definition plot_state_init :: "'a FourBandFilters \<Rightarrow> 'a plot_state" where
  "plot_state_init fb =
     \<lparr>bank = fb,
      raw_buffer = deque_new BUFFER_SIZE,
      band_buffers =
        [(''delta'', deque_new BUFFER_SIZE),
         (''alpha'', deque_new BUFFER_SIZE),
         (''beta'', deque_new BUFFER_SIZE),
         (''gamma'', deque_new BUFFER_SIZE)]\<rparr>"

text \<open>
  \<^verbatim>\<open>for name in band_buffers: band_buffers[name].append(bands[name])\<close>
\<close>

fun append_bands ::
  "(string \<times> 'a deque) list \<Rightarrow> (string \<times> 'a) list \<Rightarrow> py_error + (string \<times> 'a deque) list"
where
  "append_bands [] bands = Inr []"
| "append_bands ((name, d) # rest) bands =
     (case dict_get bands name of
        Inl e \<Rightarrow> Inl e
      | Inr v \<Rightarrow>
          (case append_bands rest bands of
             Inl e \<Rightarrow> Inl e
           | Inr rest' \<Rightarrow> Inr ((name, deque_append d v) # rest')))"

text \<open>
  Lines 195-198 of \<^verbatim>\<open>main\<close> and 309-312 of \<^verbatim>\<open>main_fall\<close>:
  \<^verbatim>\<open>
    raw_buffer.append(sample)
    bands = filters.apply(sample)
    for name in band_buffers:
        band_buffers[name].append(bands[name])
  \<close>
\<close>

definition process_sample ::
  "(('a::{plus,minus,times}), 'z) plot_state_scheme \<Rightarrow> 'a
     \<Rightarrow> py_error + ('a, 'z) plot_state_scheme"
where
  "process_sample st sample =
     (let raw' = deque_append (raw_buffer st) sample
      in case FourBandFilters_apply (bank st) sample of
           Inl e \<Rightarrow> Inl e
         | Inr (bands, fb') \<Rightarrow>
             (case append_bands (band_buffers st) bands of
                Inl e \<Rightarrow> Inl e
              | Inr bb \<Rightarrow> Inr (st\<lparr>bank := fb', raw_buffer := raw', band_buffers := bb\<rparr>)))"

subsection \<open>\<^verbatim>\<open>main\<close>: samples from the serial reader\<close>

record 'a main_state = "'a plot_state" +
  reader_queue :: "'a Queue"
  sample_count :: int

definition main_init :: "'a FourBandFilters \<Rightarrow> 'a main_state" where
  "main_init fb =
     plot_state.extend (plot_state_init fb) \<lparr>reader_queue = Queue_init 0, sample_count = 0\<rparr>"

text \<open>
  One turn of \<^verbatim>\<open>while plt.fignum_exists(fig.number)\<close>:
  \<^verbatim>\<open>
    sample = reader.read_latest()
    if sample is None:
        plt.pause(0.001); continue
    ... the four lines above ...
    sample_count += 1
  \<close>
\<close>

definition main_turn ::
  "('a::{plus,minus,times}) main_state \<Rightarrow> py_error + 'a main_state"
where
  "main_turn st =
     (let (sample, q') = read_latest (reader_queue st);
          st = st\<lparr>reader_queue := q'\<rparr>
      in case sample of
           None \<Rightarrow> Inr st
         | Some s \<Rightarrow>
             (case process_sample st s of
                Inl e \<Rightarrow> Inl e
              | Inr st' \<Rightarrow> Inr (st'\<lparr>sample_count := sample_count st' + 1\<rparr>)))"

text \<open>
  A run of the loop: before each turn the reader thread has enqueued the samples it
  parsed since the turn before (possibly none).
\<close>

fun main_loop ::
  "('a::{plus,minus,times}) main_state \<Rightarrow> 'a list list \<Rightarrow> py_error + 'a main_state"
where
  "main_loop st [] = Inr st"
| "main_loop st (arrived # rest) =
     (case main_turn (st\<lparr>reader_queue := put_all (reader_queue st) arrived\<rparr>) of
        Inl e \<Rightarrow> Inl e
      | Inr st' \<Rightarrow> main_loop st' rest)"

text \<open>The samples a run keeps: the last one of every non-empty batch.\<close>

definition retained :: "'a list list \<Rightarrow> 'a list" where
  "retained batches = map last (filter (\<lambda>b. b \<noteq> []) batches)"

text \<open>
  The shape the loops keep: the filter bank is well formed, the band buffers are a
  dictionary, and every band buffer's name is a key of \<^verbatim>\<open>self.filters\<close>.
\<close>

definition plot_ok :: "('a, 'z) plot_state_scheme \<Rightarrow> bool" where
  "plot_ok st =
     (bank_ok (bank st) \<and> distinct (map fst (band_buffers st)) \<and>
      list_all (\<lambda>name. name \<in> set (map fst (filters (bank st)))) (map fst (band_buffers st)))"

text \<open>The four lines above, for a sequence of samples.\<close>

fun process_all ::
  "(('a::{plus,minus,times}), 'z) plot_state_scheme \<Rightarrow> 'a list
     \<Rightarrow> py_error + ('a, 'z) plot_state_scheme"
where
  "process_all st [] = Inr st"
| "process_all st (x # xs) =
     (case process_sample st x of Inl e \<Rightarrow> Inl e | Inr st' \<Rightarrow> process_all st' xs)"

text \<open>
  \<^verbatim>\<open>main\<close> once the serial port is open: the filter bank for \<^verbatim>\<open>SAMPLE_RATE\<close>, the empty
  buffers, the loop. An exception of the constructor ends \<^verbatim>\<open>main\<close> before anything else
  is set up.
\<close>

definition main ::
  "(nat \<Rightarrow> 'a \<Rightarrow> 'a \<Rightarrow> 'a biquad list) \<Rightarrow> 'a list list
     \<Rightarrow> py_error + ('a::linordered_field) main_state"
where
  "main design batches =
     (case FourBandFilters_init design SAMPLE_RATE of
        Inl e \<Rightarrow> Inl e
      | Inr fb \<Rightarrow> main_loop (main_init fb) batches)"

subsection \<open>\<^verbatim>\<open>main_fall\<close>: the synthetic generator\<close>

text \<open>
  NumPy as \<^verbatim>\<open>main_fall\<close> uses it: \<^verbatim>\<open>np.sin\<close>, \<^verbatim>\<open>np.pi\<close> and \<^verbatim>\<open>np.random.normal(loc, scale)\<close>,
  which draws from the module's global generator and moves its state (type \<open>'g\<close>) on.
  The script never seeds the generator: the state it starts from is an input of the run.
\<close>

record ('a, 'g) numpy =
  np_sin :: "'a \<Rightarrow> 'a"
  np_pi :: 'a
  random_normal :: "'a \<Rightarrow> 'a \<Rightarrow> 'g \<Rightarrow> 'a \<times> 'g"

record ('a, 'g) fall_state = "'a plot_state" +
  t :: 'a
  seg_idx :: nat
  seg_count :: nat
  last_ui :: 'a
  redraws :: nat
  generator :: 'g

definition seg_names :: "string list" where
  "seg_names = [''low'', ''moderate'', ''high'']"

definition segment_samples :: nat where
  "segment_samples = nat (8 * SAMPLE_RATE)"

definition dt :: "'a::field" where
  "dt = 1 / of_int SAMPLE_RATE"

text \<open>The amplitudes \<open>a_delta, a_alpha, a_beta, a_gamma\<close> and \<open>noise_scale\<close> of a segment.\<close>

definition amplitudes :: "string \<Rightarrow> ('a::field) \<times> 'a \<times> 'a \<times> 'a \<times> 'a" where
  "amplitudes seg =
     (if seg = ''low'' then (30, 20, 10, 5, 5)
      else if seg = ''moderate'' then (60, 40, 25, 15, 10)
      else (120, 90, 60, 40, 15))"

text \<open>
  \<^verbatim>\<open>
    raw = ( a_delta * np.sin(2 * np.pi * f_delta * t)
          + a_alpha * np.sin(2 * np.pi * f_alpha * t + 0.7)
          + a_beta  * np.sin(2 * np.pi * f_beta  * t + 1.3)
          + a_gamma * np.sin(2 * np.pi * f_gamma * t + 2.1)
          + np.random.normal(0.0, noise_scale) )
  \<close>
  with \<open>f_delta = 2\<close>, \<open>f_alpha = 10\<close>, \<open>f_beta = 20\<close>, \<open>f_gamma = 40\<close>.
\<close>

definition compose_raw ::
  "(('a::field), 'g) numpy \<Rightarrow> string \<Rightarrow> 'a \<Rightarrow> 'g \<Rightarrow> 'a \<times> 'g"
where
  "compose_raw np seg time g =
     (let (a_delta, a_alpha, a_beta, a_gamma, noise_scale) = amplitudes seg;
          (noise, g') = random_normal np 0 noise_scale g
      in (a_delta * np_sin np (2 * np_pi np * 2 * time)
          + a_alpha * np_sin np (2 * np_pi np * 10 * time + 7 / 10)
          + a_beta * np_sin np (2 * np_pi np * 20 * time + 13 / 10)
          + a_gamma * np_sin np (2 * np_pi np * 40 * time + 21 / 10)
          + noise, g'))"

definition main_fall_init ::
  "('a::linordered_field) FourBandFilters \<Rightarrow> 'a \<Rightarrow> 'g \<Rightarrow> ('a, 'g) fall_state"
where
  "main_fall_init fb start g =
     plot_state.extend (plot_state_init fb)
       \<lparr>t = 0, seg_idx = 0, seg_count = 0, last_ui = start, redraws = 0, generator = g\<rparr>"

text \<open>
  One turn of the loop of \<^verbatim>\<open>main_fall\<close>; \<open>now\<close> is what \<^verbatim>\<open>time.time()\<close> returns in it. The
  turn yields the raw sample it composed. \<^verbatim>\<open>seg_names[seg_idx]\<close> raises \<^verbatim>\<open>IndexError\<close>
  out of range.
\<close>

definition main_fall_turn ::
  "(('a::linordered_field), 'g) numpy \<Rightarrow> ('a, 'g) fall_state \<Rightarrow> 'a
     \<Rightarrow> py_error + ('a \<times> ('a, 'g) fall_state)"
where
  "main_fall_turn np st now =
     (if length seg_names \<le> seg_idx st then Inl IndexError
      else
        (let seg = seg_names ! seg_idx st;
             (raw, g') = compose_raw np seg (t st) (generator st)
         in case process_sample (st\<lparr>generator := g'\<rparr>) raw of
              Inl e \<Rightarrow> Inl e
            | Inr st1 \<Rightarrow>
                (let count = seg_count st1 + 1;
                     st2 = (if segment_samples \<le> count
                            then st1\<lparr>seg_count := 0,
                                   seg_idx := (seg_idx st1 + 1) mod length seg_names\<rparr>
                            else st1\<lparr>seg_count := count\<rparr>);
                     st3 = st2\<lparr>t := t st2 + dt\<rparr>;
                     st4 = (if 5 / 100 < now - last_ui st3
                            then st3\<lparr>redraws := redraws st3 + 1, last_ui := now\<rparr>
                            else st3)
                 in Inr (raw, st4))))"

text \<open>A run of the loop, one clock reading per turn; it yields the raw samples in order.\<close>

fun main_fall_loop ::
  "(('a::linordered_field), 'g) numpy \<Rightarrow> ('a, 'g) fall_state \<Rightarrow> 'a list
     \<Rightarrow> py_error + ('a list \<times> ('a, 'g) fall_state)"
where
  "main_fall_loop np st [] = Inr ([], st)"
| "main_fall_loop np st (now # clock) =
     (case main_fall_turn np st now of
        Inl e \<Rightarrow> Inl e
      | Inr (raw, st') \<Rightarrow>
          (case main_fall_loop np st' clock of
             Inl e \<Rightarrow> Inl e
           | Inr (raws, st'') \<Rightarrow> Inr (raw # raws, st'')))"

definition main_fall ::
  "(nat \<Rightarrow> 'a \<Rightarrow> 'a \<Rightarrow> 'a biquad list) \<Rightarrow> (('a::linordered_field), 'g) numpy \<Rightarrow> 'g \<Rightarrow> 'a
     \<Rightarrow> 'a list \<Rightarrow> py_error + ('a list \<times> ('a, 'g) fall_state)"
where
  "main_fall design np g start clock =
     (case FourBandFilters_init design SAMPLE_RATE of
        Inl e \<Rightarrow> Inl e
      | Inr fb \<Rightarrow> main_fall_loop np (main_fall_init fb start g) clock)"

text \<open>
  A toy NumPy for running the model: a "sine" that is the identity, \<open>pi = 3\<close>, and a
  generator whose state is a counter and whose draw is \<open>scale\<close> times the counter.
\<close>

definition example_numpy :: "(rat, nat) numpy" where
  "example_numpy =
     \<lparr>np_sin = (\<lambda>x. x), np_pi = 3,
      random_normal = (\<lambda>loc scale g. (loc + scale * of_nat g, Suc g))\<rparr>"

section \<open>\<^verbatim>\<open>bulb_bci.py\<close>\<close>

subsection \<open>Python floats with their special values\<close>

text \<open>
  \<^verbatim>\<open>float(line)\<close> also reads \<^verbatim>\<open>inf\<close>, \<^verbatim>\<open>-inf\<close> and \<^verbatim>\<open>nan\<close>, so the values that reach the
  bulb are finite numbers or one of the three special values. A finite result is kept
  exact (no rounding, one zero) while it is in the range of a double and becomes an
  infinity when it is not, as a double's does (\<open>pf_fin\<close>); the special values follow
  IEEE 754 as Python exposes it: comparisons with \<^verbatim>\<open>nan\<close> are false, \<^verbatim>\<open>x / 0.0\<close>
  raises \<^verbatim>\<open>ZeroDivisionError\<close>, \<^verbatim>\<open>int(inf)\<close> raises \<^verbatim>\<open>OverflowError\<close> and
  \<^verbatim>\<open>int(nan)\<close> \<^verbatim>\<open>ValueError\<close>.
\<close>

datatype pyfloat = Fin rat | PosInf | NegInf | NaN

definition in_float_range :: "rat \<Rightarrow> bool" where
  "in_float_range a = (\<bar>a\<bar> < of_int float_limit)"

definition pf_fin :: "rat \<Rightarrow> pyfloat" where
  "pf_fin a = (if in_float_range a then Fin a else if 0 < a then PosInf else NegInf)"

fun pf_neg :: "pyfloat \<Rightarrow> pyfloat" where
  "pf_neg (Fin a) = Fin (- a)"
| "pf_neg PosInf = NegInf"
| "pf_neg NegInf = PosInf"
| "pf_neg NaN = NaN"

fun pf_abs :: "pyfloat \<Rightarrow> pyfloat" where
  "pf_abs (Fin a) = Fin \<bar>a\<bar>"
| "pf_abs PosInf = PosInf"
| "pf_abs NegInf = PosInf"
| "pf_abs NaN = NaN"

fun pf_sign :: "pyfloat \<Rightarrow> int" where
  "pf_sign (Fin a) = (if 0 < a then 1 else if a < 0 then - 1 else 0)"
| "pf_sign PosInf = 1"
| "pf_sign NegInf = - 1"
| "pf_sign NaN = 0"

fun pf_add :: "pyfloat \<Rightarrow> pyfloat \<Rightarrow> pyfloat" where
  "pf_add NaN y = NaN"
| "pf_add x NaN = NaN"
| "pf_add (Fin a) (Fin b) = pf_fin (a + b)"
| "pf_add PosInf NegInf = NaN"
| "pf_add NegInf PosInf = NaN"
| "pf_add PosInf y = PosInf"
| "pf_add x PosInf = PosInf"
| "pf_add NegInf y = NegInf"
| "pf_add x NegInf = NegInf"

definition pf_sub :: "pyfloat \<Rightarrow> pyfloat \<Rightarrow> pyfloat" where
  "pf_sub x y = pf_add x (pf_neg y)"

fun pf_mul :: "pyfloat \<Rightarrow> pyfloat \<Rightarrow> pyfloat" where
  "pf_mul NaN y = NaN"
| "pf_mul x NaN = NaN"
| "pf_mul (Fin a) (Fin b) = pf_fin (a * b)"
| "pf_mul x y =
     (let s = pf_sign x * pf_sign y
      in if s = 0 then NaN else if 0 < s then PosInf else NegInf)"

fun pf_quot :: "pyfloat \<Rightarrow> pyfloat \<Rightarrow> pyfloat" where
  "pf_quot NaN y = NaN"
| "pf_quot x NaN = NaN"
| "pf_quot (Fin a) (Fin b) = pf_fin (a / b)"
| "pf_quot (Fin a) y = Fin 0"
| "pf_quot x (Fin b) = (if 0 < pf_sign x * pf_sign (Fin b) then PosInf else NegInf)"
| "pf_quot x y = NaN"

definition pf_div :: "pyfloat \<Rightarrow> pyfloat \<Rightarrow> py_error + pyfloat" where
  "pf_div x y = (if y = Fin 0 then Inl ZeroDivisionError else Inr (pf_quot x y))"

fun pf_le :: "pyfloat \<Rightarrow> pyfloat \<Rightarrow> bool" where
  "pf_le NaN y = False"
| "pf_le x NaN = False"
| "pf_le (Fin a) (Fin b) = (a \<le> b)"
| "pf_le NegInf y = True"
| "pf_le x PosInf = True"
| "pf_le x y = False"

text \<open>\<^verbatim>\<open>int(x)\<close> truncates towards zero.\<close>

fun py_int :: "pyfloat \<Rightarrow> py_error + int" where
  "py_int (Fin a) = Inr (if 0 \<le> a then \<lfloor>a\<rfloor> else \<lceil>a\<rceil>)"
| "py_int PosInf = Inl OverflowError"
| "py_int NegInf = Inl OverflowError"
| "py_int NaN = Inl ValueError"

text \<open>\<^verbatim>\<open>sum(xs)\<close> starts from 0 and adds from the left.\<close>

definition py_sum :: "pyfloat list \<Rightarrow> pyfloat" where
  "py_sum xs = foldl pf_add (Fin 0) xs"

subsection \<open>The helper functions and the polling callback\<close>

definition THRESHOLD :: pyfloat where
  "THRESHOLD = Fin 120"

definition SMOOTH_WINDOW :: nat where
  "SMOOTH_WINDOW = 8"

definition MAX_SIGNAL :: pyfloat where
  "MAX_SIGNAL = Fin 500"

definition USE_SMOOTH :: bool where
  "USE_SMOOTH = False"

text \<open>
  \<^verbatim>\<open>
    def compute_moving_average(window_deque, new_val):
        window_deque.append(new_val)
        return sum(window_deque) / len(window_deque)
  \<close>
\<close>

definition compute_moving_average ::
  "pyfloat deque \<Rightarrow> pyfloat \<Rightarrow> py_error + (pyfloat \<times> pyfloat deque)"
where
  "compute_moving_average window_deque new_val =
     (let w = deque_append window_deque new_val
      in case pf_div (py_sum (items w)) (Fin (of_nat (length (items w)))) of
           Inl e \<Rightarrow> Inl e
         | Inr avg \<Rightarrow> Inr (avg, w))"

text \<open>
  \<^verbatim>\<open>
    def map_to_brightness(value_abs, threshold, max_signal):
        if value_abs <= threshold:
            return 0
        denom = (max_signal - threshold) if (max_signal - threshold) != 0 else 1.0
        normalized = (value_abs - threshold) / denom
        level = int(normalized * 10.0)
        if level < 0: level = 0
        if level > 10: level = 10
        return level
  \<close>
\<close>

definition map_to_brightness :: "pyfloat \<Rightarrow> pyfloat \<Rightarrow> pyfloat \<Rightarrow> py_error + int" where
  "map_to_brightness value_abs threshold max_signal =
     (if pf_le value_abs threshold then Inr 0
      else
        (let denom = (if pf_sub max_signal threshold \<noteq> Fin 0
                      then pf_sub max_signal threshold else Fin 1)
         in case pf_div (pf_sub value_abs threshold) denom of
              Inl e \<Rightarrow> Inl e
            | Inr normalized \<Rightarrow>
                (case py_int (pf_mul normalized (Fin 10)) of
                   Inl e \<Rightarrow> Inl e
                 | Inr level \<Rightarrow>
                     (let level = (if level < 0 then 0 else level);
                          level = (if 10 < level then 10 else level)
                      in Inr level))))"

text \<open>
  The state \<^verbatim>\<open>poll_queue_and_update\<close> works on: the smoothing window, the queue and the
  bulb's \<^verbatim>\<open>brightness_level\<close>. An exception leaves the callback before its last
  statement, \<^verbatim>\<open>root.after(20, poll_queue_and_update)\<close>.
\<close>

record bulb_state =
  window :: "pyfloat deque"
  bulb_queue :: "pyfloat Queue"
  brightness_level :: int

definition bulb_init :: bulb_state where
  "bulb_init = \<lparr>window = deque_new SMOOTH_WINDOW, bulb_queue = Queue_init 0, brightness_level = 0\<rparr>"

text \<open>
  \<^verbatim>\<open>
    while not val_queue.empty():
        raw_val = val_queue.get_nowait()
        smooth_val = compute_moving_average(window, raw_val)
        updated = True
  \<close>
\<close>

fun poll_drain ::
  "pyfloat list \<Rightarrow> pyfloat deque \<Rightarrow> pyfloat option \<Rightarrow> pyfloat option \<Rightarrow> bool
     \<Rightarrow> py_error + (pyfloat deque \<times> pyfloat option \<times> pyfloat option \<times> bool)"
where
  "poll_drain [] w raw_val smooth_val updated = Inr (w, raw_val, smooth_val, updated)"
| "poll_drain (x # q) w raw_val smooth_val updated =
     (case compute_moving_average w x of
        Inl e \<Rightarrow> Inl e
      | Inr (avg, w') \<Rightarrow> poll_drain q w' (Some x) (Some avg) True)"

text \<open>\<^verbatim>\<open>BulbApp.set_brightness\<close>: \<^verbatim>\<open>level = max(0, min(10, int(level)))\<close>.\<close>

definition set_brightness :: "bulb_state \<Rightarrow> int \<Rightarrow> bulb_state" where
  "set_brightness st level = st\<lparr>brightness_level := max 0 (min 10 level)\<rparr>"

definition poll_queue_and_update :: "bulb_state \<Rightarrow> py_error + bulb_state" where
  "poll_queue_and_update st =
     (case poll_drain (queue (bulb_queue st)) (window st) None None False of
        Inl e \<Rightarrow> Inl e
      | Inr (w, raw_val, smooth_val, updated) \<Rightarrow>
          (let st = st\<lparr>window := w, bulb_queue := (bulb_queue st)\<lparr>queue := []\<rparr>\<rparr>
           in case (raw_val, smooth_val) of
                (Some raw, Some smooth) \<Rightarrow>
                  (if updated then
                     (let used_value = (if USE_SMOOTH then smooth else raw);
                          used_abs = pf_abs used_value
                      in case map_to_brightness used_abs THRESHOLD MAX_SIGNAL of
                           Inl e \<Rightarrow> Inl e
                         | Inr level \<Rightarrow> Inr (set_brightness st level))
                   else Inr st)
              | _ \<Rightarrow> Inr st))"

text \<open>
  Two states of \<^verbatim>\<open>main_fall\<close> that agree on everything the signal depends on: all but
  \<^verbatim>\<open>last_ui\<close> and the count of redraws.
\<close>

definition same_signal :: "('a, 'g) fall_state \<Rightarrow> ('a, 'g) fall_state \<Rightarrow> bool" where
  "same_signal st1 st2 =
     (plot_state.truncate st1 = plot_state.truncate st2 \<and> t st1 = t st2 \<and>
      seg_idx st1 = seg_idx st2 \<and> seg_count st1 = seg_count st2 \<and>
      generator st1 = generator st2)"

text \<open>
  The schedule of \<^verbatim>\<open>main_fall\<close> written by tick number, to compare the loop with: tick
  \<open>k\<close> (from 0) falls in segment \<open>(k div segment_samples) mod 3\<close>, its time is \<open>dt\<close>
  added \<open>k\<close> times to 0, and its raw sample is composed from these and one draw of the
  generator, whose state passes from tick to tick.
\<close>

definition tick_segment :: "nat \<Rightarrow> string" where
  "tick_segment k = seg_names ! ((k div segment_samples) mod length seg_names)"

fun tick_time :: "nat \<Rightarrow> 'a::field" where
  "tick_time 0 = 0"
| "tick_time (Suc k) = tick_time k + dt"

fun raw_samples :: "(('a::field), 'g) numpy \<Rightarrow> 'g \<Rightarrow> nat \<Rightarrow> nat \<Rightarrow> 'a list" where
  "raw_samples np g k 0 = []"
| "raw_samples np g k (Suc n) =
     (let (raw, g') = compose_raw np (tick_segment k) (tick_time k) g
      in raw # raw_samples np g' (Suc k) n)"


section \<open>Dictionaries and deques: basic facts\<close>

lemma dict_get_set_same: "dict_get (dict_set d k v) k = Inr v"
  by (induction d) auto

lemma dict_get_set_other: "k' \<noteq> k \<Longrightarrow> dict_get (dict_set d k v) k' = dict_get d k'"
  by (induction d) auto

lemma dict_set_keys:
  "map fst (dict_set d k v) = (if k \<in> fst ` set d then map fst d else map fst d @ [k])"
  by (induction d) force+

lemma dict_get_Inr_mem: "dict_get d k = Inr v \<Longrightarrow> (k, v) \<in> set d"
  by (induction d) (auto split: if_splits)

lemma dict_get_distinct: "distinct (map fst d) \<Longrightarrow> (k, v) \<in> set d \<Longrightarrow> dict_get d k = Inr v"
  by (induction d) (auto simp: rev_image_eqI)

lemma items_deque_append:
  "items (deque_append d x) =
     (if maxlen d < Suc (length (items d)) then tl (items d @ [x]) else items d @ [x])"
  by (simp add: deque_append_def Let_def)

lemma maxlen_deque_append: "maxlen (deque_append d x) = maxlen d"
  by (simp add: deque_append_def Let_def)

lemma length_deque_append:
  "length (items d) \<le> maxlen d \<Longrightarrow>
     length (items (deque_append d x)) = min (maxlen d) (Suc (length (items d)))"
  by (auto simp: items_deque_append)

lemma float_limit_large: "2 ^ 64 \<le> float_limit"
  by (simp add: float_limit_def)

lemma int_to_float_small:
  "\<bar>n\<bar> < 2 ^ 64 \<Longrightarrow> int_to_float n = Inr (of_int n)"
  using float_limit_large by (simp add: int_to_float_def)


lemma in_float_range_small: "\<bar>a\<bar> < 2 ^ 64 \<Longrightarrow> in_float_range a"
proof -
  assume "\<bar>a\<bar> < 2 ^ 64"
  moreover have "(2 ^ 64 :: rat) \<le> of_int float_limit"
    using float_limit_large by (metis of_int_le_iff of_int_numeral of_int_power)
  ultimately show ?thesis by (simp add: in_float_range_def)
qed

lemma pf_fin_small: "\<bar>a\<bar> < 2 ^ 64 \<Longrightarrow> pf_fin a = Fin a"
  by (simp add: pf_fin_def in_float_range_small)

section \<open>Streaming through the filter bank equals batch filtering\<close>

lemma length_sos_sections:
  "length z = length sos \<Longrightarrow> length (snd (sos_sections sos z x)) = length sos"
  by (induction sos z x rule: sos_sections.induct) (auto simp: Let_def split: prod.splits)

lemma sosfilt_single:
  "length z = length sos \<Longrightarrow>
     sosfilt sos [x] z = Inr ([fst (sos_sections sos z x)], snd (sos_sections sos z x))"
  by (simp add: sosfilt_def split: prod.splits)

lemma dict_set_same_value: "dict_get d k = Inr v \<Longrightarrow> dict_set d k v = d"
  by (induction d) (auto split: if_splits)

lemma shapes_ok_Cons:
  "shapes_ok ((name, sos) # fs) zis \<longleftrightarrow>
     (\<exists>z. dict_get zis name = Inr z \<and> length z = length sos) \<and> shapes_ok fs zis"
  by (auto simp: shapes_ok_def split: sum.splits)

lemma shapes_ok_dict_set:
  "shapes_ok fs zis \<Longrightarrow> name \<notin> fst ` set fs \<Longrightarrow> shapes_ok fs (dict_set zis name z)"
  by (induction fs) (auto simp: shapes_ok_def dict_get_set_other split: sum.splits)

lemma apply_loop_ok:
  assumes "distinct (map fst fs)" and "shapes_ok fs zis"
  shows "\<exists>out' zis'. apply_loop fs zis x out = Inr (out', zis') \<and>
           (\<forall>name sos. (name, sos) \<in> set fs \<longrightarrow>
              (\<exists>z. dict_get zis name = Inr z \<and> length z = length sos \<and>
                   dict_get zis' name = Inr (snd (sos_sections sos z x)) \<and>
                   dict_get out' name = Inr (fst (sos_sections sos z x)))) \<and>
           (\<forall>name. name \<notin> fst ` set fs \<longrightarrow>
              dict_get zis' name = dict_get zis name \<and> dict_get out' name = dict_get out name)"
  using assms
proof (induction fs arbitrary: zis out)
  case Nil
  then show ?case by simp
next
  case (Cons p fs)
  obtain name sos where p: "p = (name, sos)" by (cases p)
  from Cons.prems p obtain z where z: "dict_get zis name = Inr z" "length z = length sos"
    and rest: "shapes_ok fs zis" and fresh: "name \<notin> fst ` set fs" and dist: "distinct (map fst fs)"
    by (auto simp: shapes_ok_Cons)
  let ?y = "fst (sos_sections sos z x)" and ?z' = "snd (sos_sections sos z x)"
  let ?zis = "dict_set zis name ?z'" and ?out = "dict_set out name ?y"
  have step: "apply_loop (p # fs) zis x out = apply_loop fs ?zis x ?out"
    using z by (simp add: p sosfilt_single)
  have "shapes_ok fs ?zis" using rest fresh by (rule shapes_ok_dict_set)
  from Cons.IH[OF dist this, of ?out] obtain out' zis' where
    run: "apply_loop fs ?zis x ?out = Inr (out', zis')"
    and inside: "\<And>n s. (n, s) \<in> set fs \<Longrightarrow>
        \<exists>z. dict_get ?zis n = Inr z \<and> length z = length s \<and>
            dict_get zis' n = Inr (snd (sos_sections s z x)) \<and>
            dict_get out' n = Inr (fst (sos_sections s z x))"
    and outside: "\<And>n. n \<notin> fst ` set fs \<Longrightarrow>
        dict_get zis' n = dict_get ?zis n \<and> dict_get out' n = dict_get ?out n"
    by blast
  have here: "dict_get zis' name = Inr ?z'" "dict_get out' name = Inr ?y"
    using outside[OF fresh] by (simp_all add: dict_get_set_same)
  have a: "\<exists>z. dict_get zis n = Inr z \<and> length z = length s \<and>
            dict_get zis' n = Inr (snd (sos_sections s z x)) \<and>
            dict_get out' n = Inr (fst (sos_sections s z x))"
    if "(n, s) \<in> set (p # fs)" for n s
  proof (cases "(n, s) = p")
    case True
    then show ?thesis using p z here by auto
  next
    case False
    with that have mem: "(n, s) \<in> set fs" by simp
    then have "n \<noteq> name" using fresh by force
    then show ?thesis using inside[OF mem] by (simp add: dict_get_set_other)
  qed
  have b: "dict_get zis' n = dict_get zis n \<and> dict_get out' n = dict_get out n"
    if "n \<notin> fst ` set (p # fs)" for n
  proof -
    from that have "n \<noteq> name" "n \<notin> fst ` set fs" by (auto simp: p)
    then show ?thesis using outside[of n] by (simp add: dict_get_set_other)
  qed
  have "apply_loop (p # fs) zis x out = Inr (out', zis')" using step run by simp
  with a b show ?case by blast
qed


lemma shapes_ok_iff:
  "shapes_ok fs zis \<longleftrightarrow>
     (\<forall>name sos. (name, sos) \<in> set fs \<longrightarrow> (\<exists>z. dict_get zis name = Inr z \<and> length z = length sos))"
  by (induction fs) (auto simp: shapes_ok_Cons, auto simp: shapes_ok_def)

lemma apply_ok:
  assumes "bank_ok self"
  shows "\<exists>out self'. FourBandFilters_apply self x = Inr (out, self') \<and> bank_ok self' \<and>
           filters self' = filters self \<and>
           (\<forall>name sos. (name, sos) \<in> set (filters self) \<longrightarrow>
              (\<exists>z. dict_get (zi self) name = Inr z \<and> length z = length sos \<and>
                   dict_get (zi self') name = Inr (snd (sos_sections sos z x)) \<and>
                   dict_get out name = Inr (fst (sos_sections sos z x))))"
proof -
  from assms have d: "distinct (map fst (filters self))" and s: "shapes_ok (filters self) (zi self)"
    by (simp_all add: bank_ok_def)
  from apply_loop_ok[OF d s, of x "[]"] obtain out zis where
    run: "apply_loop (filters self) (zi self) x [] = Inr (out, zis)"
    and inside: "\<And>n s. (n, s) \<in> set (filters self) \<Longrightarrow>
        \<exists>z. dict_get (zi self) n = Inr z \<and> length z = length s \<and>
            dict_get zis n = Inr (snd (sos_sections s z x)) \<and>
            dict_get out n = Inr (fst (sos_sections s z x))"
    by blast
  let ?self' = "self\<lparr>zi := zis\<rparr>"
  have 1: "FourBandFilters_apply self x = Inr (out, ?self')"
    by (simp add: FourBandFilters_apply_def run)
  have "shapes_ok (filters self) zis"
    unfolding shapes_ok_iff using inside length_sos_sections by metis
  then have 2: "bank_ok ?self'" using d by (simp add: bank_ok_def)
  from 1 2 inside show ?thesis by (intro exI[of _ out] exI[of _ ?self']) simp
qed

lemma sosfilt_Cons:
  "length z = length sos \<Longrightarrow>
     sosfilt sos xs (snd (sos_sections sos z x)) = Inr (ys, z') \<Longrightarrow>
     sosfilt sos (x # xs) z = Inr (fst (sos_sections sos z x) # ys, z')"
  by (auto simp: sosfilt_def split: prod.splits if_splits)

lemma apply_each_sosfilt:
  assumes "bank_ok self" and "(name, sos) \<in> set (filters self)"
    and "dict_get (zi self) name = Inr z"
  shows "\<exists>outs self' ys z'. apply_each self xs = Inr (outs, self') \<and>
           sosfilt sos xs z = Inr (ys, z') \<and>
           map (\<lambda>out. dict_get out name) outs = map Inr ys \<and>
           dict_get (zi self') name = Inr z'"
  using assms
proof (induction xs arbitrary: self z)
  case Nil
  then have "length z = length sos" by (fastforce simp: bank_ok_def shapes_ok_iff)
  then show ?case using Nil.prems(3) by (simp add: sosfilt_def)
next
  case (Cons x xs)
  from apply_ok[OF Cons.prems(1), of x] obtain out self1 where
    ap: "FourBandFilters_apply self x = Inr (out, self1)" and ok: "bank_ok self1"
    and same: "filters self1 = filters self"
    and inside: "\<And>n s. (n, s) \<in> set (filters self) \<Longrightarrow>
        \<exists>z. dict_get (zi self) n = Inr z \<and> length z = length s \<and>
            dict_get (zi self1) n = Inr (snd (sos_sections s z x)) \<and>
            dict_get out n = Inr (fst (sos_sections s z x))"
    by blast
  from inside[OF Cons.prems(2)] Cons.prems(3)
  have len: "length z = length sos"
    and z1: "dict_get (zi self1) name = Inr (snd (sos_sections sos z x))"
    and y: "dict_get out name = Inr (fst (sos_sections sos z x))"
    by auto
  from Cons.IH[OF ok _ z1] Cons.prems(2) same obtain outs self' ys z' where
    run: "apply_each self1 xs = Inr (outs, self')"
    and batch: "sosfilt sos xs (snd (sos_sections sos z x)) = Inr (ys, z')"
    and eq: "map (\<lambda>out. dict_get out name) outs = map Inr ys"
    and fin: "dict_get (zi self') name = Inr z'"
    by auto
  have "apply_each self (x # xs) = Inr (out # outs, self')" by (simp add: ap run)
  moreover note sosfilt_Cons[OF len batch]
  moreover have "map (\<lambda>out. dict_get out name) (out # outs) =
      map Inr (fst (sos_sections sos z x) # ys)" using y eq by simp
  ultimately show ?case using fin by blast
qed

text \<open>
  C1. Feeding any finite sequence of samples one at a time through
  \<^verbatim>\<open>FourBandFilters.apply\<close> on one instance, the delay values \<^verbatim>\<open>self.zi\<close> carried from
  call to call, never raises and gives for every band exactly the outputs, and leaves
  exactly the final delay values, of one \<^verbatim>\<open>sosfilt\<close> call on the whole sequence started
  from the band's delay values before the first sample. The coefficient type carries no
  law of arithmetic, so the equality is one of the very same operations.
\<close>

theorem apply_each_is_sosfilt:
  assumes "bank_ok self" and "(name, sos) \<in> set (filters self)"
    and "dict_get (zi self) name = Inr z"
  shows "\<exists>outs self' ys z'. apply_each self xs = Inr (outs, self') \<and>
           sosfilt sos xs z = Inr (ys, z') \<and>
           map (\<lambda>out. dict_get out name) outs = map Inr ys \<and>
           dict_get (zi self') name = Inr z'"
  using assms by (rule apply_each_sosfilt)

theorem apply_each_is_sosfilt_witness:
  "bank_ok example_bank \<and> (''delta'', example_design 4 0 0) \<in> set (filters example_bank) \<and>
   dict_get (zi example_bank) ''delta'' = Inr [(0, 0), (0, 0)] \<and>
   (\<exists>outs self' ys z'. apply_each example_bank [1, 2, 3] = Inr (outs, self') \<and>
      sosfilt (example_design 4 0 0) [1, 2, 3] [(0, 0), (0, 0)] = Inr (ys, z') \<and>
      map (\<lambda>out. dict_get out ''delta'') outs = map Inr ys \<and>
      dict_get (zi self') ''delta'' = Inr z')"
proof -
  have h1: "bank_ok example_bank"
    by (simp add: bank_ok_def example_bank_def shapes_ok_def example_design_def)
  have h2: "(''delta'', example_design 4 0 0) \<in> set (filters example_bank)"
    by (simp add: example_bank_def)
  have h3: "dict_get (zi example_bank) ''delta'' = Inr [(0, 0), (0, 0)]"
    by (simp add: example_bank_def)
  from apply_each_is_sosfilt[OF h1 h2 h3, of "[1, 2, 3]"] h1 h2 h3 show ?thesis by blast
qed

section \<open>The constructor\<close>

lemma lfilter_zi_steady:
  fixes s :: "('a::field) biquad"
  assumes "lfilter_zi s = Inr (z0, z1)"
  defines "g \<equiv> (b0 s + b1 s + b2 s) / (1 + a1 s + a2 s)"
  shows "b0 s * c + c * z0 = c * g"
    and "b1 s * c - a1 s * (c * g) + c * z1 = c * z0"
    and "b2 s * c - a2 s * (c * g) = c * z1"
proof -
  define d where "d = 1 + a1 s + a2 s"
  from assms(1) have det: "d \<noteq> 0"
    and z0: "z0 = ((b1 s - a1 s * b0 s) + (b2 s - a2 s * b0 s)) / d"
    and z1: "z1 = ((1 + a1 s) * (b2 s - a2 s * b0 s) - a2 s * (b1 s - a1 s * b0 s)) / d"
    by (auto simp: lfilter_zi_def Let_def d_def split: if_splits)
  have e0: "z0 * d = (b1 s - a1 s * b0 s) + (b2 s - a2 s * b0 s)"
    and e1: "z1 * d = (1 + a1 s) * (b2 s - a2 s * b0 s) - a2 s * (b1 s - a1 s * b0 s)"
    and eg: "g * d = b0 s + b1 s + b2 s"
    using det by (simp_all add: z0 z1 g_def d_def[symmetric])
  have "(b0 s * c + c * z0) * d = (c * g) * d"
    using e0 eg unfolding d_def by algebra
  then show "b0 s * c + c * z0 = c * g" using det by simp
  have "(b1 s * c - a1 s * (c * g) + c * z1) * d * d = (c * z0) * d * d"
    using e0 e1 eg unfolding d_def by algebra
  then show "b1 s * c - a1 s * (c * g) + c * z1 = c * z0" using det by simp
  have "(b2 s * c - a2 s * (c * g)) * d * d = (c * z1) * d * d"
    using e0 e1 eg unfolding d_def by algebra
  then show "b2 s * c - a2 s * (c * g) = c * z1" using det by simp
qed


lemma sosfilt_zi_loop_length:
  "sosfilt_zi_loop c sos = Inr zs \<Longrightarrow> length zs = length sos"
  by (induction sos arbitrary: c zs) (auto split: sum.splits prod.splits)

lemma sosfilt_zi_loop_steady:
  "sosfilt_zi_loop c sos = Inr zs \<Longrightarrow> snd (sos_sections sos zs c) = zs"
proof (induction sos arbitrary: c zs)
  case Nil
  then show ?case by simp
next
  case (Cons s ss)
  define g where "g = (b0 s + b1 s + b2 s) / (1 + a1 s + a2 s)"
  from Cons.prems obtain z0 z1 zs' where
    l: "lfilter_zi s = Inr (z0, z1)" and r: "sosfilt_zi_loop (c * g) ss = Inr zs'"
    and zs: "zs = (c * z0, c * z1) # zs'"
    unfolding g_def by (auto split: sum.splits prod.splits)
  have x1: "b0 s * c + c * z0 = c * g"
    and x2: "b1 s * c - a1 s * (c * g) + c * z1 = c * z0"
    and x3: "b2 s * c - a2 s * (c * g) = c * z1"
    unfolding g_def by (rule lfilter_zi_steady[OF l])+
  from Cons.IH[OF r] have ih: "snd (sos_sections ss zs' (c * g)) = zs'" .
  have "snd (sos_sections (s # ss) ((c * z0, c * z1) # zs') c) =
      (c * z0, c * z1) # snd (sos_sections ss zs' (c * g))"
    by (simp add: Let_def x1 x2 x3 split: prod.splits)
  then show ?case by (simp add: zs ih)
qed

lemma sosfilt_zi_steady: "sosfilt_zi sos = Inr z \<Longrightarrow> steady_for sos z 1"
  unfolding sosfilt_zi_def steady_for_def by (rule sosfilt_zi_loop_steady)

lemma sosfilt_zi_length: "sosfilt_zi sos = Inr z \<Longrightarrow> length z = length sos"
  unfolding sosfilt_zi_def by (rule sosfilt_zi_loop_length)

lemma distinct_dict_set: "distinct (map fst d) \<Longrightarrow> distinct (map fst (dict_set d k v))"
  by (simp add: dict_set_keys)

lemma set_dict_set:
  "distinct (map fst d) \<Longrightarrow> (k', v') \<in> set (dict_set d k v) \<Longrightarrow>
     (k', v') = (k, v) \<or> (k' \<noteq> k \<and> (k', v') \<in> set d)"
  by (induction d) (auto split: if_splits simp: rev_image_eqI)

lemma tuned_dict_set:
  assumes "tuned fs zis" and "sosfilt_zi sos = Inr z"
  shows "tuned (dict_set fs name sos) (dict_set zis name z)"
  unfolding tuned_def
proof (intro conjI allI impI)
  show "distinct (map fst (dict_set fs name sos))"
    using assms(1) by (simp add: tuned_def distinct_dict_set)
next
  fix n s assume "(n, s) \<in> set (dict_set fs name sos)"
  with assms(1) have "(n, s) = (name, sos) \<or> (n \<noteq> name \<and> (n, s) \<in> set fs)"
    by (auto simp: tuned_def dest: set_dict_set)
  then show "\<exists>z'. dict_get (dict_set zis name z) n = Inr z' \<and> sosfilt_zi s = Inr z'"
    using assms by (auto simp: tuned_def dict_get_set_same dict_get_set_other)
qed

lemma init_loop_tuned:
  "init_loop design nyq bs fs zis = Inr (fs', zis') \<Longrightarrow> tuned fs zis \<Longrightarrow> tuned fs' zis'"
proof (induction bs arbitrary: fs zis)
  case Nil
  then show ?case by simp
next
  case (Cons b bs)
  obtain name lo hi where b: "b = (name, lo, hi)" by (cases b)
  from Cons.prems(1) obtain sos z where
    z: "sosfilt_zi sos = Inr z"
    and rest: "init_loop design nyq bs (dict_set fs name sos) (dict_set zis name z) = Inr (fs', zis')"
    by (auto simp: b Let_def split: if_splits sum.splits)
  from Cons.IH[OF rest tuned_dict_set[OF Cons.prems(2) z]] show ?case .
qed

lemma init_tuned:
  "FourBandFilters_init design sr = Inr self \<Longrightarrow> tuned (filters self) (zi self)"
  by (auto simp: FourBandFilters_init_def Let_def tuned_def split: sum.splits
      dest!: init_loop_tuned)

lemma tuned_bank_ok: "tuned (filters self) (zi self) \<Longrightarrow> bank_ok self"
  unfolding tuned_def bank_ok_def shapes_ok_iff using sosfilt_zi_length by blast

lemma tuned_steady: "tuned (filters self) (zi self) \<Longrightarrow> bank_steady_for self 1"
  unfolding tuned_def bank_steady_for_def list_all_iff
  using sosfilt_zi_steady by fastforce

lemma example_init_eq: "FourBandFilters_init example_design 250 = Inr example_init"
  by (simp add: FourBandFilters_init_def int_to_float_small bands_hz_def butter_def example_design_def
      sosfilt_zi_def lfilter_zi_def example_init_def Let_def)

lemma apply_loop_steady:
  assumes "\<forall>(name, sos) \<in> set fs. \<exists>z. dict_get zis name = Inr z \<and> length z = length sos \<and> steady_for sos z c"
  shows "\<exists>out'. apply_loop fs zis c out = Inr (out', zis)"
  using assms
proof (induction fs arbitrary: out)
  case Nil
  then show ?case by simp
next
  case (Cons p fs)
  obtain name sos where p: "p = (name, sos)" by (cases p)
  from Cons.prems p obtain z where z: "dict_get zis name = Inr z" "length z = length sos"
    and st: "snd (sos_sections sos z c) = z"
    by (auto simp: steady_for_def)
  have "apply_loop (p # fs) zis c out =
      apply_loop fs zis c (dict_set out name (fst (sos_sections sos z c)))"
    using z st by (simp add: p sosfilt_single dict_set_same_value)
  moreover from Cons.prems have
    "\<forall>(name, sos) \<in> set fs. \<exists>z. dict_get zis name = Inr z \<and> length z = length sos \<and> steady_for sos z c"
    by simp
  from Cons.IH[OF this] obtain out' where
    "apply_loop fs zis c (dict_set out name (fst (sos_sections sos z c))) = Inr (out', zis)"
    by blast
  ultimately show ?case by simp
qed

lemma bank_steady_apply:
  assumes "bank_ok self" and "bank_steady_for self c"
  shows "\<exists>out. FourBandFilters_apply self c = Inr (out, self)"
proof -
  have "\<forall>(name, sos) \<in> set (filters self).
      \<exists>z. dict_get (zi self) name = Inr z \<and> length z = length sos \<and> steady_for sos z c"
    using assms
    by (fastforce simp: bank_ok_def shapes_ok_iff bank_steady_for_def list_all_iff split: sum.splits)
  from apply_loop_steady[OF this, of "[]"] obtain out where
    "apply_loop (filters self) (zi self) c [] = Inr (out, zi self)" by blast
  then show ?thesis by (auto simp: FourBandFilters_apply_def)
qed

lemma sosfilt_zi_loop_scale:
  "sosfilt_zi_loop k sos = Inr zs \<Longrightarrow>
     sosfilt_zi_loop (c * k) sos = Inr (map (\<lambda>(z0, z1). (c * z0, c * z1)) zs)"
proof (induction sos arbitrary: k zs)
  case Nil
  then show ?case by simp
next
  case (Cons s ss)
  define g where "g = (b0 s + b1 s + b2 s) / (1 + a1 s + a2 s)"
  from Cons.prems obtain z0 z1 zs' where
    l: "lfilter_zi s = Inr (z0, z1)" and r: "sosfilt_zi_loop (k * g) ss = Inr zs'"
    and zs: "zs = (k * z0, k * z1) # zs'"
    unfolding g_def by (auto split: sum.splits prod.splits)
  from Cons.IH[OF r] have "sosfilt_zi_loop (c * (k * g)) ss = Inr (map (\<lambda>(z0, z1). (c * z0, c * z1)) zs')" .
  then have "sosfilt_zi_loop (c * k * g) ss = Inr (map (\<lambda>(z0, z1). (c * z0, c * z1)) zs')"
    by (simp add: mult.assoc)
  then show ?case using l unfolding g_def by (simp add: zs mult.assoc)
qed

lemma scaled_zi_steady:
  assumes "sosfilt_zi sos = Inr zs"
  shows "steady_for sos (map (\<lambda>(z0, z1). (c * z0, c * z1)) zs) c"
proof -
  from sosfilt_zi_loop_scale[OF assms[unfolded sosfilt_zi_def], of c]
  have "sosfilt_zi_loop c sos = Inr (map (\<lambda>(z0, z1). (c * z0, c * z1)) zs)" by simp
  then show ?thesis unfolding steady_for_def by (rule sosfilt_zi_loop_steady)
qed

lemma first_section_moves:
  fixes s :: "('a::field) biquad"
  assumes "sosfilt_zi (s # ss) = Inr z" and "b2 s - a2 s * b0 s \<noteq> 0" and "c \<noteq> 1"
  shows "\<not> steady_for (s # ss) z c"
proof
  assume st: "steady_for (s # ss) z c"
  from assms(1) obtain z0 z1 zs where l: "lfilter_zi s = Inr (z0, z1)" and z: "z = (z0, z1) # zs"
    unfolding sosfilt_zi_def by (auto split: sum.splits prod.splits)
  from lfilter_zi_steady[OF l, of 1]
  have g: "b0 s + z0 = (b0 s + b1 s + b2 s) / (1 + a1 s + a2 s)"
    and e: "b2 s - a2 s * ((b0 s + b1 s + b2 s) / (1 + a1 s + a2 s)) = z1"
    by simp_all
  from st have "b2 s * c - a2 s * (b0 s * c + z0) = z1"
    unfolding steady_for_def z by (simp add: Let_def split: prod.splits)
  with e g have "b2 s * c - a2 s * (b0 s * c + z0) = b2 s - a2 s * (b0 s + z0)" by simp
  then have "(c - 1) * (b2 s - a2 s * b0 s) = 0" by (simp add: algebra_simps)
  with assms(2,3) show False by simp
qed

lemma dict_get_map_values:
  "dict_get (map (\<lambda>(k, v). (k, f v)) d) k = map_sum id f (dict_get d k)"
  by (induction d) auto

text \<open>
  In the exact arithmetic of the model a sample of value 1 leaves the whole bank as the
  constructor built it.
\<close>

lemma unit_sample_keeps_state:
  assumes "FourBandFilters_init design sr = Inr self"
  shows "\<exists>out. FourBandFilters_apply self 1 = Inr (out, self)"
proof -
  from assms have t: "tuned (filters self) (zi self)" by (rule init_tuned)
  from bank_steady_apply[OF tuned_bank_ok[OF t] tuned_steady[OF t]] show ?thesis .
qed

text \<open>
  C2 fails on the code. The constructor stores \<^verbatim>\<open>sosfilt_zi(sos)\<close> as it is and \<^verbatim>\<open>apply\<close>
  never scales it: for every design routine and sample rate the constructor accepts, the
  delay values of every band are those of \<^verbatim>\<open>sosfilt_zi\<close>, the steady state of a run of
  ones. For a first sample \<open>c\<close> other than 1 they are not the steady state of a run of
  \<open>c\<close> as soon as the first section of some band has \<open>b2 - a2 * b0\<close> other than 0 (as a
  stable Butterworth section has). What the claim describes is the state scaled by the
  first sample, \<^verbatim>\<open>sosfilt_zi(sos) * c\<close>, which is steady for \<open>c\<close>.
\<close>

theorem init_state_is_steady_for_one_only:
  fixes design :: "nat \<Rightarrow> ('a::linordered_field) \<Rightarrow> 'a \<Rightarrow> 'a biquad list"
  assumes "FourBandFilters_init design sr = Inr self"
  shows "list_all (\<lambda>(name, sos). dict_get (zi self) name = sosfilt_zi sos) (filters self) \<and>
         bank_steady_for self 1 \<and>
         (c \<noteq> 1 \<and> list_ex (\<lambda>(name, sos). sos \<noteq> [] \<and>
                       b2 (hd sos) - a2 (hd sos) * b0 (hd sos) \<noteq> 0) (filters self) \<longrightarrow>
            \<not> bank_steady_for self c) \<and>
         bank_steady_for
           (self\<lparr>zi := map (\<lambda>(name, z). (name, map (\<lambda>(z0, z1). (c * z0, c * z1)) z)) (zi self)\<rparr>) c"
proof (intro conjI impI)
  from assms have t: "tuned (filters self) (zi self)" by (rule init_tuned)
  then have tz: "\<exists>z. dict_get (zi self) name = Inr z \<and> sosfilt_zi sos = Inr z"
    if "(name, sos) \<in> set (filters self)" for name sos
    using that by (simp add: tuned_def)
  show "list_all (\<lambda>(name, sos). dict_get (zi self) name = sosfilt_zi sos) (filters self)"
    unfolding list_all_iff using tz by fastforce
  show "bank_steady_for self 1" using t by (rule tuned_steady)
  show "bank_steady_for
           (self\<lparr>zi := map (\<lambda>(name, z). (name, map (\<lambda>(z0, z1). (c * z0, c * z1)) z)) (zi self)\<rparr>) c"
    unfolding bank_steady_for_def list_all_iff
  proof (intro ballI)
    fix p assume p: "p \<in> set (filters (self\<lparr>zi := map (\<lambda>(name, z). (name, map (\<lambda>(z0, z1). (c * z0, c * z1)) z)) (zi self)\<rparr>))"
    obtain name sos where ns: "p = (name, sos)" by (cases p)
    with p have "(name, sos) \<in> set (filters self)" by simp
    from tz[OF this] obtain z where z: "dict_get (zi self) name = Inr z" "sosfilt_zi sos = Inr z"
      by blast
    from scaled_zi_steady[OF z(2), of c] z(1)
    show "case p of (name, sos) \<Rightarrow>
        (case dict_get (zi (self\<lparr>zi := map (\<lambda>(name, z). (name, map (\<lambda>(z0, z1). (c * z0, c * z1)) z)) (zi self)\<rparr>)) name of
           Inl e \<Rightarrow> False | Inr z \<Rightarrow> steady_for sos z c)"
      by (simp add: ns dict_get_map_values)
  qed
  assume a: "c \<noteq> 1 \<and> list_ex (\<lambda>(name, sos). sos \<noteq> [] \<and>
                       b2 (hd sos) - a2 (hd sos) * b0 (hd sos) \<noteq> 0) (filters self)"
  then obtain name sos where mem: "(name, sos) \<in> set (filters self)"
    and ne: "sos \<noteq> []" and nz: "b2 (hd sos) - a2 (hd sos) * b0 (hd sos) \<noteq> 0"
    by (auto simp: list_ex_iff)
  from ne obtain s ss where sos: "sos = s # ss" by (cases sos) auto
  from tz[OF mem] obtain z where z: "dict_get (zi self) name = Inr z" "sosfilt_zi sos = Inr z"
    by blast
  from first_section_moves[OF z(2)[unfolded sos]] nz a sos
  have "\<not> steady_for sos z c" by simp
  with mem z(1) show "\<not> bank_steady_for self c"
    unfolding bank_steady_for_def list_all_iff by force
qed

theorem init_state_is_steady_for_one_only_witness:
  "FourBandFilters_init example_design 250 = Inr example_init \<and>
   list_all (\<lambda>(name, sos). dict_get (zi example_init) name = sosfilt_zi sos) (filters example_init) \<and>
   bank_steady_for example_init 1 \<and>
   (0 :: rat) \<noteq> 1 \<and>
   list_ex (\<lambda>(name, sos). sos \<noteq> [] \<and> b2 (hd sos) - a2 (hd sos) * b0 (hd sos) \<noteq> 0)
     (filters example_init) \<and>
   \<not> bank_steady_for example_init 0 \<and>
   bank_steady_for
     (example_init\<lparr>zi := map (\<lambda>(name, z). (name, map (\<lambda>(z0, z1). (0 * z0, 0 * z1)) z)) (zi example_init)\<rparr>) 0"
proof -
  note T = init_state_is_steady_for_one_only[OF example_init_eq, of 0]
  have h: "(0 :: rat) \<noteq> 1 \<and>
    list_ex (\<lambda>(name, sos). sos \<noteq> [] \<and> b2 (hd sos) - a2 (hd sos) * b0 (hd sos) \<noteq> 0)
      (filters example_init)"
    by (simp add: example_init_def example_design_def)
  note r = T[THEN conjunct2, THEN conjunct2, THEN conjunct1, THEN mp, OF h]
  show ?thesis
    by (intro conjI example_init_eq T[THEN conjunct1] T[THEN conjunct2, THEN conjunct1]
        h[THEN conjunct1] h[THEN conjunct2] r T[THEN conjunct2, THEN conjunct2, THEN conjunct2])
qed

text \<open>
  The example design at 250 Hz with a first sample of 0: the stored state is not the
  steady state of a run of zeros (that is the zero state, with output 0), and the first
  call of \<^verbatim>\<open>apply\<close> answers \<open>-1/4\<close> on every band, a start-up transient.
\<close>

lemma example_init_transient:
  "FourBandFilters_init example_design 250 = Inr example_init \<and>
   \<not> bank_steady_for example_init 0 \<and>
   map_sum id fst (FourBandFilters_apply example_init 0) =
     Inr [(''delta'', - 1 / 4), (''alpha'', - 1 / 4), (''beta'', - 1 / 4), (''gamma'', - 1 / 4)] \<and>
   steady_for (example_design 4 0 0) [(0, 0), (0, 0)] 0 \<and>
   fst (sos_sections (example_design 4 0 0) [(0, 0), (0, 0)] 0) = 0"
proof (intro conjI)
  show "FourBandFilters_init example_design 250 = Inr example_init" by (rule example_init_eq)
  show "\<not> bank_steady_for example_init 0"
    by (simp add: bank_steady_for_def example_init_def steady_for_def example_design_def Let_def)
  show "map_sum id fst (FourBandFilters_apply example_init 0) =
     Inr [(''delta'', - 1 / 4), (''alpha'', - 1 / 4), (''beta'', - 1 / 4), (''gamma'', - 1 / 4)]"
    by (simp add: FourBandFilters_apply_def example_init_def sosfilt_def example_design_def Let_def)
  show "steady_for (example_design 4 0 0) [(0, 0), (0, 0)] 0"
    by (simp add: steady_for_def example_design_def Let_def)
  show "fst (sos_sections (example_design 4 0 0) [(0, 0), (0, 0)] 0) = 0"
    by (simp add: example_design_def Let_def)
qed

lemma sosfilt_zi_loop_ok:
  "list_all (\<lambda>s. 1 + a1 s + a2 s \<noteq> 0) sos \<Longrightarrow> \<exists>zs. sosfilt_zi_loop c sos = Inr zs"
proof (induction sos arbitrary: c)
  case Nil
  then show ?case by simp
next
  case (Cons s ss)
  then obtain z0 z1 where "lfilter_zi s = Inr (z0, z1)"
    by (auto simp: lfilter_zi_def Let_def)
  moreover from Cons obtain zs where
    "sosfilt_zi_loop (c * ((b0 s + b1 s + b2 s) / (1 + a1 s + a2 s))) ss = Inr zs"
    by fastforce
  ultimately show ?case by simp
qed


lemma init_loop_succeeds:
  assumes "0 < nyq" and "no_pole_at_one design"
    and "list_all (\<lambda>(name, lo, hi). 0 < lo \<and> lo < hi \<and> hi < nyq) bs"
  shows "\<exists>r. init_loop design nyq bs fs zis = Inr r"
  using assms(3)
proof (induction bs arbitrary: fs zis)
  case Nil
  then show ?case by simp
next
  case (Cons b bs)
  obtain name lo hi where b: "b = (name, lo, hi)" by (cases b)
  from Cons.prems b have c: "0 < lo" "lo < hi" "hi < nyq"
    and rest: "list_all (\<lambda>(name, lo, hi). 0 < lo \<and> lo < hi \<and> hi < nyq) bs"
    by auto
  from c assms(1) have "butter design 4 (lo / nyq) (hi / nyq) = Inr (design 4 (lo / nyq) (hi / nyq))"
    by (simp add: butter_def divide_strict_right_mono not_le)
  moreover from assms(2) obtain z where "sosfilt_zi (design 4 (lo / nyq) (hi / nyq)) = Inr z"
    unfolding sosfilt_zi_def no_pole_at_one_def using sosfilt_zi_loop_ok by blast
  moreover note Cons.IH[OF rest]
  ultimately show ?case using assms(1) by (simp add: b Let_def)
qed


lemma init_succeeds:
  fixes design :: "nat \<Rightarrow> ('a::linordered_field) \<Rightarrow> 'a \<Rightarrow> 'a biquad list"
  assumes "no_pole_at_one design"
    and "list_all (\<lambda>(name, lo, hi). lo < of_int sr / 2 \<and> hi < of_int sr / 2)
           (bands_hz :: (string \<times> 'a \<times> 'a) list)"
    and "\<bar>sr\<bar> < float_limit"
  shows "\<exists>self. FourBandFilters_init design sr = Inr self"
proof -
  define nyq :: 'a where "nyq = of_int sr / 2"
  have conv: "int_to_float sr = (Inr (of_int sr) :: py_error + 'a)"
    using assms(3) by (simp add: int_to_float_def)
  from assms(2) have big: "100 < nyq" by (auto simp: bands_hz_def nyq_def)
  then have "list_all (\<lambda>(name, lo, hi). 0 < lo \<and> lo < hi \<and> hi < nyq) bands_hz"
    by (simp add: bands_hz_def)
  from init_loop_succeeds[OF _ assms(1) this, of "[]" "[]"] big
  obtain r where "init_loop design nyq bands_hz [] [] = Inr r" by fastforce
  then show ?thesis
    by (auto simp: FourBandFilters_init_def conv nyq_def Let_def split: prod.splits)
qed

lemma init_succeeds_SAMPLE_RATE:
  fixes design :: "nat \<Rightarrow> ('a::linordered_field) \<Rightarrow> 'a \<Rightarrow> 'a biquad list"
  assumes "no_pole_at_one design"
  shows "\<exists>self. FourBandFilters_init design SAMPLE_RATE = Inr self"
proof (rule init_succeeds[OF assms])
  show "list_all (\<lambda>(name, lo, hi). lo < of_int SAMPLE_RATE / 2 \<and> hi < of_int SAMPLE_RATE / 2)
           (bands_hz :: (string \<times> 'a \<times> 'a) list)"
    by (simp add: bands_hz_def SAMPLE_RATE_def)
  show "\<bar>SAMPLE_RATE\<bar> < float_limit"
    using float_limit_large by (simp add: SAMPLE_RATE_def)
qed









section \<open>The buffers and the consumer loop of \<^verbatim>\<open>main\<close>\<close>

lemma foldl_deque_append_maxlen: "maxlen (foldl deque_append d xs) = maxlen d"
  by (induction xs arbitrary: d) (simp_all add: maxlen_deque_append)

lemma items_foldl_deque_append:
  "length (items d) \<le> maxlen d \<Longrightarrow>
     items (foldl deque_append d xs) =
       drop (length (items d) + length xs - maxlen d) (items d @ xs)"
proof (induction xs arbitrary: d)
  case Nil
  then show ?case by simp
next
  case (Cons x xs)
  let ?d = "deque_append d x"
  have len: "length (items ?d) \<le> maxlen ?d"
    using Cons.prems by (auto simp: items_deque_append maxlen_deque_append)
  show ?case
  proof (cases "maxlen d < Suc (length (items d))")
    case True
    with Cons.prems have full: "length (items d) = maxlen d" by simp
    have it: "items ?d = tl (items d @ [x])" using True by (simp add: items_deque_append)
    have l2: "length (items ?d) = maxlen d" using full it by simp
    have t: "tl (items d @ [x]) @ xs = tl ((items d @ [x]) @ xs)"
      by (cases "items d") simp_all
    have "items (foldl deque_append ?d xs) =
        drop (length (items ?d) + length xs - maxlen ?d) (items ?d @ xs)"
      using Cons.IH[OF len] .
    also have "\<dots> = drop (length xs) (tl (items d @ [x]) @ xs)"
      using l2 it by (simp add: maxlen_deque_append)
    also have "\<dots> = drop (length xs) (tl ((items d @ [x]) @ xs))"
      by (simp only: t)
    also have "\<dots> = drop (Suc (length xs)) ((items d @ [x]) @ xs)"
      by (simp only: drop_Suc)
    finally show ?thesis using full by simp
  next
    case False
    then have it: "items ?d = items d @ [x]" by (simp add: items_deque_append)
    from Cons.IH[OF len] show ?thesis using it by (simp add: maxlen_deque_append)
  qed
qed

lemma items_foldl_deque_new:
  "items (foldl deque_append (deque_new N) xs) = drop (length xs - N) xs"
  using items_foldl_deque_append[of "deque_new N" xs] by (simp add: deque_new_def)

lemma put_all_unbounded:
  "maxsize q \<le> 0 \<Longrightarrow> put_all q xs = q\<lparr>queue := queue q @ xs\<rparr>"
  by (induction xs arbitrary: q) (auto simp: put_def)

lemma read_latest_loop_eq:
  "read_latest_loop q l = (if q = [] then l else Some (last q), [])"
  by (induction q arbitrary: l) auto

lemma read_latest_eq:
  "read_latest q = (if queue q = [] then None else Some (last (queue q)), q\<lparr>queue := []\<rparr>)"
  by (simp add: read_latest_def read_latest_loop_eq)

lemma process_sample_truncate:
  "process_sample (plot_state.truncate st) x = map_sum id plot_state.truncate (process_sample st x)"
  by (auto simp: process_sample_def plot_state.truncate_def Let_def split: sum.splits prod.splits)

lemma process_sample_reader_queue:
  "process_sample st x = Inr st' \<Longrightarrow> reader_queue st' = reader_queue st"
  by (auto simp: process_sample_def Let_def split: sum.splits prod.splits)

lemma main_loop_retained:
  "maxsize (reader_queue st) \<le> 0 \<Longrightarrow> queue (reader_queue st) = [] \<Longrightarrow>
     map_sum id plot_state.truncate (main_loop st batches) =
       process_all (plot_state.truncate st) (retained batches)"
proof (induction batches arbitrary: st)
  case Nil
  then show ?case by (simp add: retained_def)
next
  case (Cons b bs)
  let ?q = "reader_queue st"
  have pa: "put_all ?q b = ?q\<lparr>queue := b\<rparr>" using Cons.prems by (simp add: put_all_unbounded)
  show ?case
  proof (cases "b = []")
    case True
    have "main_turn (st\<lparr>reader_queue := put_all ?q b\<rparr>) = Inr st"
      using Cons.prems True by (simp add: main_turn_def pa read_latest_eq)
    then show ?thesis using Cons.IH[OF Cons.prems] True by (simp add: retained_def)
  next
    case False
    let ?st = "st\<lparr>reader_queue := ?q\<lparr>queue := []\<rparr>\<rparr>"
    have st: "?st = st" using Cons.prems by simp
    have mt: "main_turn (st\<lparr>reader_queue := put_all ?q b\<rparr>) =
        (case process_sample st (last b) of Inl e \<Rightarrow> Inl e
         | Inr st' \<Rightarrow> Inr (st'\<lparr>sample_count := sample_count st' + 1\<rparr>))"
      using False st by (simp add: main_turn_def pa read_latest_eq)
    show ?thesis
    proof (cases "process_sample st (last b)")
      case (Inl e)
      then show ?thesis using mt False
        by (simp add: retained_def process_sample_truncate)
    next
      case (Inr st')
      let ?st' = "st'\<lparr>sample_count := sample_count st' + 1\<rparr>"
      from process_sample_reader_queue[OF Inr] have "reader_queue st' = reader_queue st" .
      then have q: "maxsize (reader_queue ?st') \<le> 0" "queue (reader_queue ?st') = []"
        using Cons.prems by simp_all
      have tr: "plot_state.truncate ?st' = plot_state.truncate st'"
        by (simp add: plot_state.truncate_def)
      from Cons.IH[OF q] show ?thesis using mt Inr False
        by (simp add: retained_def process_sample_truncate tr)
    qed
  qed
qed

lemma append_bands_ok:
  "\<forall>name \<in> fst ` set bb. \<exists>v. dict_get bands name = Inr v \<Longrightarrow>
     append_bands bb bands =
       Inr (map (\<lambda>(name, d). (name, deque_append d (projr (dict_get bands name)))) bb)"
  by (induction bb) (auto split: sum.splits)

lemma process_sample_ok:
  assumes "plot_ok st"
  shows "\<exists>bands fb'. FourBandFilters_apply (bank st) x = Inr (bands, fb') \<and>
           process_sample st x =
             Inr (st\<lparr>bank := fb', raw_buffer := deque_append (raw_buffer st) x,
                     band_buffers :=
                       map (\<lambda>(name, d). (name, deque_append d (projr (dict_get bands name))))
                         (band_buffers st)\<rparr>) \<and>
           bank_ok fb' \<and> filters fb' = filters (bank st)"
proof -
  from assms have ok: "bank_ok (bank st)"
    and keys: "\<forall>name \<in> fst ` set (band_buffers st). name \<in> fst ` set (filters (bank st))"
    by (auto simp: plot_ok_def list_all_iff)
  from apply_ok[OF ok, of x] obtain bands fb' where
    ap: "FourBandFilters_apply (bank st) x = Inr (bands, fb')" and ok': "bank_ok fb'"
    and same: "filters fb' = filters (bank st)"
    and inside: "\<And>n s. (n, s) \<in> set (filters (bank st)) \<Longrightarrow>
        \<exists>z. dict_get (zi (bank st)) n = Inr z \<and> length z = length s \<and>
            dict_get (zi fb') n = Inr (snd (sos_sections s z x)) \<and>
            dict_get bands n = Inr (fst (sos_sections s z x))"
    by blast
  have "\<forall>name \<in> fst ` set (band_buffers st). \<exists>v. dict_get bands name = Inr v"
  proof
    fix name assume "name \<in> fst ` set (band_buffers st)"
    with keys obtain sos where "(name, sos) \<in> set (filters (bank st))" by fastforce
    from inside[OF this] show "\<exists>v. dict_get bands name = Inr v" by blast
  qed
  from append_bands_ok[OF this] ap ok' same show ?thesis
    by (simp add: process_sample_def Let_def)
qed

lemma plot_ok_update:
  "plot_ok st \<Longrightarrow> bank_ok fb' \<Longrightarrow> filters fb' = filters (bank st) \<Longrightarrow>
     plot_ok (st\<lparr>bank := fb', raw_buffer := r, band_buffers := map (\<lambda>(name, d). (name, f name d)) (band_buffers st)\<rparr>)"
  by (simp add: plot_ok_def list_all_iff comp_def case_prod_beta)

lemma process_all_ok:
  assumes "plot_ok st"
  shows "\<exists>outs fb'. apply_each (bank st) xs = Inr (outs, fb') \<and>
           process_all st xs =
             Inr (st\<lparr>bank := fb', raw_buffer := foldl deque_append (raw_buffer st) xs,
                     band_buffers :=
                       map (\<lambda>(name, d).
                            (name, foldl deque_append d (map (\<lambda>out. projr (dict_get out name)) outs)))
                         (band_buffers st)\<rparr>)"
  using assms
proof (induction xs arbitrary: st)
  case Nil
  then show ?case by (simp add: case_prod_beta)
next
  case (Cons x xs)
  from process_sample_ok[OF Cons.prems, of x] obtain bands fb1 where
    ap: "FourBandFilters_apply (bank st) x = Inr (bands, fb1)"
    and ps: "process_sample st x =
             Inr (st\<lparr>bank := fb1, raw_buffer := deque_append (raw_buffer st) x,
                     band_buffers :=
                       map (\<lambda>(name, d). (name, deque_append d (projr (dict_get bands name))))
                         (band_buffers st)\<rparr>)"
    and ok1: "bank_ok fb1" and same: "filters fb1 = filters (bank st)"
    by blast
  let ?st1 = "st\<lparr>bank := fb1, raw_buffer := deque_append (raw_buffer st) x,
                     band_buffers :=
                       map (\<lambda>(name, d). (name, deque_append d (projr (dict_get bands name))))
                         (band_buffers st)\<rparr>"
  have "plot_ok ?st1" using Cons.prems ok1 same by (rule plot_ok_update)
  from Cons.IH[OF this] obtain outs fb' where
    ae: "apply_each fb1 xs = Inr (outs, fb')"
    and pa: "process_all ?st1 xs =
             Inr (?st1\<lparr>bank := fb', raw_buffer := foldl deque_append (raw_buffer ?st1) xs,
                     band_buffers :=
                       map (\<lambda>(name, d).
                            (name, foldl deque_append d (map (\<lambda>out. projr (dict_get out name)) outs)))
                         (band_buffers ?st1)\<rparr>)"
    by auto
  have "apply_each (bank st) (x # xs) = Inr (bands # outs, fb')" by (simp add: ap ae)
  moreover have "process_all st (x # xs) =
             Inr (st\<lparr>bank := fb', raw_buffer := foldl deque_append (raw_buffer st) (x # xs),
                     band_buffers :=
                       map (\<lambda>(name, d).
                            (name, foldl deque_append d (map (\<lambda>out. projr (dict_get out name)) (bands # outs))))
                         (band_buffers st)\<rparr>)"
    by (simp add: ps pa comp_def case_prod_beta)
  ultimately show ?case by blast
qed

lemma init_loop_keys:
  "init_loop design nyq bs fs zis = Inr (fs', zis') \<Longrightarrow>
     set (map fst fs') = set (map fst fs) \<union> set (map fst bs)"
proof (induction bs arbitrary: fs zis)
  case Nil
  then show ?case by simp
next
  case (Cons b bs)
  obtain name lo hi where b: "b = (name, lo, hi)" by (cases b)
  from Cons.prems obtain sos z where
    rest: "init_loop design nyq bs (dict_set fs name sos) (dict_set zis name z) = Inr (fs', zis')"
    by (auto simp: b Let_def split: if_splits sum.splits)
  from Cons.IH[OF rest] show ?case by (auto simp: b dict_set_keys)
qed

lemma init_keys:
  assumes "FourBandFilters_init design sr = Inr fb"
  shows "set (map fst (filters fb)) = {''delta'', ''alpha'', ''beta'', ''gamma''}"
proof -
  from assms obtain nyq fs zis where
    "init_loop design nyq bands_hz [] [] = Inr (fs, zis)" and "filters fb = fs"
    by (auto simp: FourBandFilters_init_def Let_def split: sum.splits)
  from init_loop_keys[OF this(1)] this(2) show ?thesis
    by (auto simp: bands_hz_def)
qed

lemma plot_ok_init:
  assumes "FourBandFilters_init design sr = Inr fb"
  shows "plot_ok (plot_state_init fb)"
  using init_keys[OF assms] tuned_bank_ok[OF init_tuned[OF assms]]
  by (simp add: plot_ok_def plot_state_init_def)

lemma plot_ok_truncate: "plot_ok (plot_state.truncate st) = plot_ok st"
  by (simp add: plot_ok_def plot_state.defs)

lemma length_foldl_deque_append:
  "length (items d) \<le> maxlen d \<Longrightarrow>
     length (items (foldl deque_append d xs)) = min (maxlen d) (length (items d) + length xs)"
  by (simp add: items_foldl_deque_append) 

lemma process_all_init:
  assumes "plot_ok (plot_state_init fb)"
  shows "\<exists>outs fb' st. apply_each fb xs = Inr (outs, fb') \<and>
           process_all (plot_state_init fb) xs = Inr st \<and> bank st = fb' \<and>
           items (raw_buffer st) = drop (length xs - BUFFER_SIZE) xs \<and>
           map fst (band_buffers st) = [''delta'', ''alpha'', ''beta'', ''gamma''] \<and>
           (\<forall>name \<in> {''delta'', ''alpha'', ''beta'', ''gamma''}.
              \<exists>d. dict_get (band_buffers st) name = Inr d \<and> maxlen d = BUFFER_SIZE \<and>
                items d = drop (length xs - BUFFER_SIZE) (map (\<lambda>out. projr (dict_get out name)) outs))"
proof -
  from process_all_ok[OF assms, of xs] obtain outs fb' where
    ae: "apply_each fb xs = Inr (outs, fb')"
    and pa: "process_all (plot_state_init fb) xs =
             Inr ((plot_state_init fb)\<lparr>bank := fb',
                     raw_buffer := foldl deque_append (raw_buffer (plot_state_init fb)) xs,
                     band_buffers :=
                       map (\<lambda>(name, d).
                            (name, foldl deque_append d (map (\<lambda>out. projr (dict_get out name)) outs)))
                         (band_buffers (plot_state_init fb))\<rparr>)"
    by (auto simp: plot_state_init_def)
  have len: "length outs = length xs" if "apply_each f xs = Inr (outs, f')" for f f' outs
    using that by (induction xs arbitrary: f outs) (auto split: sum.splits prod.splits)
  have l: "length outs = length xs" using len[OF ae] .
  show ?thesis
    apply (rule exI[of _ outs], rule exI[of _ fb'])
    apply (rule exI)
    apply (intro conjI)
         apply (rule ae)
        apply (rule pa)
       apply simp
      apply (simp add: plot_state_init_def items_foldl_deque_new)
     apply (simp add: plot_state_init_def)
    apply (simp add: plot_state_init_def items_foldl_deque_new foldl_deque_append_maxlen l)
    apply (simp add: deque_new_def)
    done
qed

lemma main_init_truncate: "plot_state.truncate (main_init fb) = plot_state_init fb"
  by (simp add: main_init_def plot_state.defs plot_state_init_def)

lemma main_init_queue:
  "maxsize (reader_queue (main_init fb)) \<le> 0" "queue (reader_queue (main_init fb)) = []"
  by (simp_all add: main_init_def plot_state.defs Queue_init_def)

lemma main_loop_init:
  "map_sum id plot_state.truncate (main_loop (main_init fb) batches) =
     process_all (plot_state_init fb) (retained batches)"
  using main_loop_retained[OF main_init_queue, of fb batches]
  by (simp add: main_init_truncate)

lemma truncate_fields:
  "bank (plot_state.truncate st) = bank st"
  "raw_buffer (plot_state.truncate st) = raw_buffer st"
  "band_buffers (plot_state.truncate st) = band_buffers st"
  by (simp_all add: plot_state.defs)

lemma main_run:
  assumes "FourBandFilters_init design SAMPLE_RATE = Inr fb"
  shows "\<exists>outs fb' st. apply_each fb (retained batches) = Inr (outs, fb') \<and>
           main design batches = Inr st \<and> bank st = fb' \<and>
           items (raw_buffer st) = drop (length (retained batches) - BUFFER_SIZE) (retained batches) \<and>
           map fst (band_buffers st) = [''delta'', ''alpha'', ''beta'', ''gamma''] \<and>
           (\<forall>name \<in> {''delta'', ''alpha'', ''beta'', ''gamma''}.
              \<exists>d. dict_get (band_buffers st) name = Inr d \<and> maxlen d = BUFFER_SIZE \<and>
                items d = drop (length (retained batches) - BUFFER_SIZE)
                            (map (\<lambda>out. projr (dict_get out name)) outs))"
proof -
  from process_all_init[OF plot_ok_init[OF assms], of "retained batches"]
  obtain outs fb' st0 where
    ae: "apply_each fb (retained batches) = Inr (outs, fb')"
    and pa: "process_all (plot_state_init fb) (retained batches) = Inr st0"
    and rest: "bank st0 = fb'"
      "items (raw_buffer st0) = drop (length (retained batches) - BUFFER_SIZE) (retained batches)"
      "map fst (band_buffers st0) = [''delta'', ''alpha'', ''beta'', ''gamma'']"
      "\<forall>name \<in> {''delta'', ''alpha'', ''beta'', ''gamma''}.
              \<exists>d. dict_get (band_buffers st0) name = Inr d \<and> maxlen d = BUFFER_SIZE \<and>
                items d = drop (length (retained batches) - BUFFER_SIZE)
                            (map (\<lambda>out. projr (dict_get out name)) outs)"
    by (elim exE conjE) (rule that; assumption)
  from main_loop_init[of fb batches] pa obtain st where
    ml: "main_loop (main_init fb) batches = Inr st" and tr: "plot_state.truncate st = st0"
    by (cases "main_loop (main_init fb) batches") auto
  have m: "main design batches = Inr st" using assms ml by (simp add: main_def)
  have f: "bank st = bank st0" "raw_buffer st = raw_buffer st0" "band_buffers st = band_buffers st0"
    using tr truncate_fields by metis+
  show ?thesis
    apply (rule exI[of _ outs], rule exI[of _ fb'], rule exI[of _ st])
    using ae m rest by (simp add: f)
qed

section \<open>The loop of \<^verbatim>\<open>main_fall\<close>\<close>

lemma process_sample_fall_fields:
  fixes st :: "('a::{plus,minus,times}, 'g) fall_state"
  assumes "process_sample st x = Inr st'"
  shows "t st' = t st" "seg_idx st' = seg_idx st" "seg_count st' = seg_count st"
    "last_ui st' = last_ui st" "redraws st' = redraws st" "generator st' = generator st"
  using assms by (auto simp: process_sample_def Let_def split: sum.splits prod.splits)

lemma truncate_fall_updates:
  "plot_state.truncate (st\<lparr>generator := g\<rparr>) = plot_state.truncate st"
  "plot_state.truncate (st\<lparr>seg_count := c\<rparr>) = plot_state.truncate st"
  "plot_state.truncate (st\<lparr>seg_idx := i\<rparr>) = plot_state.truncate st"
  "plot_state.truncate (st\<lparr>t := x\<rparr>) = plot_state.truncate st"
  "plot_state.truncate (st\<lparr>redraws := r\<rparr>) = plot_state.truncate st"
  "plot_state.truncate (st\<lparr>last_ui := u\<rparr>) = plot_state.truncate st"
  by (simp_all add: plot_state.defs)

lemma main_fall_turn_cases:
  fixes st :: "('a::linordered_field, 'g) fall_state" and np :: "('a, 'g) numpy"
  assumes "seg_idx st < length seg_names"
  defines "rg \<equiv> compose_raw np (seg_names ! seg_idx st) (t st) (generator st)"
  shows "(\<exists>e. process_sample (plot_state.truncate st) (fst rg) = Inl e \<and>
              main_fall_turn np st now = Inl e) \<or>
         (\<exists>st'. main_fall_turn np st now = Inr (fst rg, st') \<and>
              process_sample (plot_state.truncate st) (fst rg) = Inr (plot_state.truncate st') \<and>
              t st' = t st + dt \<and> generator st' = snd rg \<and>
              seg_count st' = (if segment_samples \<le> seg_count st + 1 then 0 else seg_count st + 1) \<and>
              seg_idx st' = (if segment_samples \<le> seg_count st + 1
                             then (seg_idx st + 1) mod length seg_names else seg_idx st))"
proof (cases "process_sample (st\<lparr>generator := snd rg\<rparr>) (fst rg)")
  case (Inl e)
  then have "process_sample (plot_state.truncate st) (fst rg) = Inl e"
    using process_sample_truncate[of "st\<lparr>generator := snd rg\<rparr>" "fst rg"]
    by (simp add: truncate_fall_updates)
  moreover have "main_fall_turn np st now = Inl e"
    using assms(1) Inl by (simp add: main_fall_turn_def rg_def Let_def case_prod_beta)
  ultimately show ?thesis by blast
next
  case (Inr st1)
  note f = process_sample_fall_fields[OF Inr]
  have tr: "process_sample (plot_state.truncate st) (fst rg) = Inr (plot_state.truncate st1)"
    using process_sample_truncate[of "st\<lparr>generator := snd rg\<rparr>" "fst rg"] Inr
    by (simp add: truncate_fall_updates)
  obtain st' where m: "main_fall_turn np st now = Inr (fst rg, st')"
    and st': "st' = (let count = seg_count st1 + 1;
                     st2 = (if segment_samples \<le> count
                            then st1\<lparr>seg_count := 0,
                                   seg_idx := (seg_idx st1 + 1) mod length seg_names\<rparr>
                            else st1\<lparr>seg_count := count\<rparr>);
                     st3 = st2\<lparr>t := t st2 + dt\<rparr>
                 in (if 5 / 100 < now - last_ui st3
                            then st3\<lparr>redraws := redraws st3 + 1, last_ui := now\<rparr>
                            else st3))"
    using assms(1) Inr by (simp add: main_fall_turn_def rg_def Let_def case_prod_beta)
  have "plot_state.truncate st' = plot_state.truncate st1"
    by (simp add: st' Let_def truncate_fall_updates)
  moreover have "t st' = t st + dt" "generator st' = snd rg"
    "seg_count st' = (if segment_samples \<le> seg_count st + 1 then 0 else seg_count st + 1)"
    "seg_idx st' = (if segment_samples \<le> seg_count st + 1
                             then (seg_idx st + 1) mod length seg_names else seg_idx st)"
    using f by (simp_all add: st' Let_def)
  ultimately show ?thesis using m tr by simp
qed


lemma process_sample_plot_ok:
  assumes "plot_ok st"
  shows "\<exists>st'. process_sample st x = Inr st' \<and> plot_ok st'"
proof -
  from process_sample_ok[OF assms, of x] obtain bands fb' where
    ps: "process_sample st x =
             Inr (st\<lparr>bank := fb', raw_buffer := deque_append (raw_buffer st) x,
                     band_buffers :=
                       map (\<lambda>(name, d). (name, deque_append d (projr (dict_get bands name))))
                         (band_buffers st)\<rparr>)"
    and ok: "bank_ok fb'" "filters fb' = filters (bank st)"
    by blast
  from plot_ok_update[OF assms ok, where r = "deque_append (raw_buffer st) x"
      and f = "\<lambda>name d. deque_append d (projr (dict_get bands name))"] ps
  show ?thesis by simp
qed

lemma main_fall_loop_ok:
  fixes st :: "('a::linordered_field, 'g) fall_state"
  assumes "plot_ok st" and "seg_idx st < length seg_names"
  shows "\<exists>raws st'. main_fall_loop np st clock = Inr (raws, st') \<and> length raws = length clock \<and>
           process_all (plot_state.truncate st) raws = Inr (plot_state.truncate st')"
  using assms
proof (induction clock arbitrary: st)
  case Nil
  then show ?case by simp
next
  case (Cons now clock)
  define raw where "raw = fst (compose_raw np (seg_names ! seg_idx st) (t st) (generator st))"
  from process_sample_plot_ok[of "plot_state.truncate st" raw] Cons.prems(1)
  obtain s1 where s1: "process_sample (plot_state.truncate st) raw = Inr s1" "plot_ok s1"
    by (auto simp: plot_ok_truncate)
  from main_fall_turn_cases[OF Cons.prems(2), of np now] s1 obtain st' where
    turn: "main_fall_turn np st now = Inr (raw, st')"
    and tr: "plot_state.truncate st' = s1"
    and idx: "seg_idx st' = (if segment_samples \<le> seg_count st + 1
                             then (seg_idx st + 1) mod length seg_names else seg_idx st)"
    unfolding raw_def by auto
  have ok': "plot_ok st'" using s1(2) tr plot_ok_truncate by metis
  have "0 < length seg_names" by (simp add: seg_names_def)
  then have "(seg_idx st + 1) mod length seg_names < length seg_names"
    by (rule mod_less_divisor)
  then have idx': "seg_idx st' < length seg_names"
    using idx Cons.prems(2) by (cases "segment_samples \<le> seg_count st + 1") simp_all
  from Cons.IH[OF ok' idx'] obtain raws st'' where
    "main_fall_loop np st' clock = Inr (raws, st'')" "length raws = length clock"
    "process_all (plot_state.truncate st') raws = Inr (plot_state.truncate st'')"
    by blast
  then show ?case using turn s1(1) tr by simp
qed

lemma main_fall_turn_same:
  fixes st1 st2 :: "('a::linordered_field, 'g) fall_state"
  assumes "same_signal st1 st2"
  shows "(\<exists>e. main_fall_turn np st1 now1 = Inl e \<and> main_fall_turn np st2 now2 = Inl e) \<or>
         (\<exists>raw s1 s2. main_fall_turn np st1 now1 = Inr (raw, s1) \<and>
              main_fall_turn np st2 now2 = Inr (raw, s2) \<and> same_signal s1 s2)"
proof (cases "seg_idx st1 < length seg_names")
  case False
  with assms show ?thesis by (simp add: main_fall_turn_def same_signal_def)
next
  case True
  with assms have i2: "seg_idx st2 < length seg_names" by (simp add: same_signal_def)
  from assms have eq: "plot_state.truncate st1 = plot_state.truncate st2" "t st1 = t st2"
    "seg_idx st1 = seg_idx st2" "seg_count st1 = seg_count st2" "generator st1 = generator st2"
    by (simp_all add: same_signal_def)
  from main_fall_turn_cases[OF True, of np now1] main_fall_turn_cases[OF i2, of np now2]
  show ?thesis unfolding eq by (auto simp: same_signal_def)
qed

lemma main_fall_loop_same:
  fixes st1 st2 :: "('a::linordered_field, 'g) fall_state"
  assumes "length clock1 = length clock2" and "same_signal st1 st2"
  shows "map_sum id fst (main_fall_loop np st1 clock1) =
         map_sum id fst (main_fall_loop np st2 clock2)"
  using assms
proof (induction clock1 clock2 arbitrary: st1 st2 rule: list_induct2)
  case Nil
  then show ?case by simp
next
  case (Cons now1 c1 now2 c2)
  from main_fall_turn_same[OF Cons.prems, of np now1 now2] show ?case
  proof (elim disjE exE conjE)
    fix e assume "main_fall_turn np st1 now1 = Inl e" "main_fall_turn np st2 now2 = Inl e"
    then show ?thesis by simp
  next
    fix raw s1 s2
    assume a: "main_fall_turn np st1 now1 = Inr (raw, s1)"
      "main_fall_turn np st2 now2 = Inr (raw, s2)" and s: "same_signal s1 s2"
    from Cons.IH[OF s] show ?thesis
      by (cases "main_fall_loop np s1 c1"; cases "main_fall_loop np s2 c2")
        (auto simp: a)
  qed
qed

lemma apply_each_length:
  "apply_each f xs = Inr (outs, f') \<Longrightarrow> length outs = length xs"
  by (induction xs arbitrary: f outs) (auto split: sum.splits prod.splits)

lemma main_fall_init_facts:
  "plot_state.truncate (main_fall_init fb start g) = plot_state_init fb"
  "seg_idx (main_fall_init fb start g) = 0"
  by (simp_all add: main_fall_init_def plot_state.defs plot_state_init_def)

lemma main_fall_run:
  fixes design :: "nat \<Rightarrow> ('a::linordered_field) \<Rightarrow> 'a \<Rightarrow> 'a biquad list"
  assumes "FourBandFilters_init design SAMPLE_RATE = Inr fb"
  shows "\<exists>raws st. main_fall design np g start clock = Inr (raws, st) \<and>
           length raws = length clock \<and>
           process_all (plot_state_init fb) raws = Inr (plot_state.truncate st)"
proof -
  have ok: "plot_ok (main_fall_init fb start g)"
    using plot_ok_init[OF assms] plot_ok_truncate[of "main_fall_init fb start g"]
    by (simp add: main_fall_init_facts)
  have idx: "seg_idx (main_fall_init fb start g) < length seg_names"
    by (simp add: main_fall_init_facts seg_names_def)
  from main_fall_loop_ok[OF ok idx, of np clock] show ?thesis
    using assms by (simp add: main_fall_def main_fall_init_facts)
qed

lemma process_all_lengths:
  assumes "plot_ok (plot_state_init fb)"
    and "process_all (plot_state_init fb) xs = Inr st"
  shows "length (items (raw_buffer st)) = min BUFFER_SIZE (length xs) \<and>
         map fst (band_buffers st) = [''delta'', ''alpha'', ''beta'', ''gamma''] \<and>
         list_all (\<lambda>(name, d). length (items d) = min BUFFER_SIZE (length xs)) (band_buffers st)"
proof -
  from process_all_init[OF assms(1), of xs] assms(2) obtain outs fb' where
    ae: "apply_each fb xs = Inr (outs, fb')"
    and raw: "items (raw_buffer st) = drop (length xs - BUFFER_SIZE) xs"
    and keys: "map fst (band_buffers st) = [''delta'', ''alpha'', ''beta'', ''gamma'']"
    and bands: "\<forall>name \<in> {''delta'', ''alpha'', ''beta'', ''gamma''}.
              \<exists>d. dict_get (band_buffers st) name = Inr d \<and> maxlen d = BUFFER_SIZE \<and>
                items d = drop (length xs - BUFFER_SIZE) (map (\<lambda>out. projr (dict_get out name)) outs)"
    by auto
  note l = apply_each_length[OF ae]
  have "length (items d) = min BUFFER_SIZE (length xs)" if "(name, d) \<in> set (band_buffers st)" for name d
  proof -
    from that have "name \<in> set (map fst (band_buffers st))" by force
    then have n: "name \<in> {''delta'', ''alpha'', ''beta'', ''gamma''}"
      unfolding keys by simp
    from keys have "distinct (map fst (band_buffers st))" by simp
    from dict_get_distinct[OF this that] have g: "dict_get (band_buffers st) name = Inr d" .
    from bands n obtain d' where "dict_get (band_buffers st) name = Inr d'"
      "items d' = drop (length xs - BUFFER_SIZE) (map (\<lambda>out. projr (dict_get out name)) outs)"
      by blast
    with g l show ?thesis by simp
  qed
  have "length (items (raw_buffer st)) = min BUFFER_SIZE (length xs)" using raw by simp
  with \<open>\<And>name d. (name, d) \<in> set (band_buffers st) \<Longrightarrow> length (items d) = min BUFFER_SIZE (length xs)\<close> keys
  show ?thesis by (auto simp: list_all_iff)
qed

lemma main_lengths:
  fixes design :: "nat \<Rightarrow> ('a::linordered_field) \<Rightarrow> 'a \<Rightarrow> 'a biquad list"
  assumes "FourBandFilters_init design SAMPLE_RATE = Inr fb"
  shows "\<exists>st. main design batches = Inr st \<and>
           length (items (raw_buffer st)) = min BUFFER_SIZE (length (retained batches)) \<and>
           map fst (band_buffers st) = [''delta'', ''alpha'', ''beta'', ''gamma''] \<and>
           list_all (\<lambda>(name, d). length (items d) = min BUFFER_SIZE (length (retained batches)))
             (band_buffers st)"
proof -
  note ok = plot_ok_init[OF assms]
  from process_all_init[OF ok, of "retained batches"] obtain st0 where
    pa: "process_all (plot_state_init fb) (retained batches) = Inr st0" by blast
  from main_loop_init[of fb batches] pa obtain st where
    ml: "main_loop (main_init fb) batches = Inr st" and tr: "plot_state.truncate st = st0"
    by (cases "main_loop (main_init fb) batches") auto
  have f: "raw_buffer st = raw_buffer st0" "band_buffers st = band_buffers st0"
    using tr truncate_fields by metis+
  from process_all_lengths[OF ok pa] ml assms show ?thesis
    by (simp add: main_def f)
qed

lemma main_fall_lengths:
  fixes design :: "nat \<Rightarrow> ('a::linordered_field) \<Rightarrow> 'a \<Rightarrow> 'a biquad list"
  assumes "FourBandFilters_init design SAMPLE_RATE = Inr fb"
  shows "\<exists>raws st. main_fall design np g start clock = Inr (raws, st) \<and>
           length raws = length clock \<and>
           length (items (raw_buffer st)) = min BUFFER_SIZE (length clock) \<and>
           map fst (band_buffers st) = [''delta'', ''alpha'', ''beta'', ''gamma''] \<and>
           list_all (\<lambda>(name, d). length (items d) = min BUFFER_SIZE (length clock))
             (band_buffers st)"
proof -
  note ok = plot_ok_init[OF assms]
  from main_fall_run[OF assms, of np g start clock] obtain raws st where
    m: "main_fall design np g start clock = Inr (raws, st)" and l: "length raws = length clock"
    and pa: "process_all (plot_state_init fb) raws = Inr (plot_state.truncate st)"
    by blast
  from process_all_lengths[OF ok pa] m l show ?thesis
    by (simp add: truncate_fields)
qed

text \<open>
  C9. In both consumer loops a retained sample is appended once to the raw buffer and,
  through \<^verbatim>\<open>filters.apply\<close>, once to every band buffer; so after any number of turns of
  \<^verbatim>\<open>main\<close> (any batches of arrivals) and of \<^verbatim>\<open>main_fall\<close> (any clock readings) the raw
  buffer and the four band buffers hold the same number of elements: the number of
  retained samples, capped at \<^verbatim>\<open>BUFFER_SIZE\<close>.
\<close>

theorem five_buffers_same_length:
  fixes design :: "nat \<Rightarrow> ('a::linordered_field) \<Rightarrow> 'a \<Rightarrow> 'a biquad list"
    and s :: "('a, 'z) plot_state_scheme"
  shows "(plot_ok s \<longrightarrow>
            (\<exists>bands fb'. FourBandFilters_apply (bank s) x = Inr (bands, fb') \<and>
               process_sample s x =
                 Inr (s\<lparr>bank := fb', raw_buffer := deque_append (raw_buffer s) x,
                        band_buffers :=
                          map (\<lambda>(name, d). (name, deque_append d (projr (dict_get bands name))))
                            (band_buffers s)\<rparr>))) \<and>
         (FourBandFilters_init design SAMPLE_RATE = Inr fb \<longrightarrow>
            (\<exists>st. main design batches = Inr st \<and>
               length (items (raw_buffer st)) = min BUFFER_SIZE (length (retained batches)) \<and>
               map fst (band_buffers st) = [''delta'', ''alpha'', ''beta'', ''gamma''] \<and>
               list_all (\<lambda>(name, d). length (items d) = min BUFFER_SIZE (length (retained batches)))
                 (band_buffers st)) \<and>
            (\<exists>raws st. main_fall design np g start clock = Inr (raws, st) \<and>
               length raws = length clock \<and>
               length (items (raw_buffer st)) = min BUFFER_SIZE (length clock) \<and>
               map fst (band_buffers st) = [''delta'', ''alpha'', ''beta'', ''gamma''] \<and>
               list_all (\<lambda>(name, d). length (items d) = min BUFFER_SIZE (length clock))
                 (band_buffers st)))"
  using process_sample_ok[of s x] main_lengths[of design fb batches]
    main_fall_lengths[of design fb np g start clock]
  by blast

lemma example_init_SAMPLE_RATE:
  "FourBandFilters_init example_design SAMPLE_RATE = Inr example_init"
  by (simp add: SAMPLE_RATE_def example_init_eq)

lemma plot_ok_example: "plot_ok (plot_state_init example_init)"
  by (rule plot_ok_init[OF example_init_eq])

theorem five_buffers_same_length_witness:
  "plot_ok (plot_state_init example_init) \<and>
   (\<exists>bands fb'. FourBandFilters_apply (bank (plot_state_init example_init)) 1 = Inr (bands, fb') \<and>
      process_sample (plot_state_init example_init) 1 =
        Inr ((plot_state_init example_init)\<lparr>bank := fb',
               raw_buffer := deque_append (raw_buffer (plot_state_init example_init)) 1,
               band_buffers :=
                 map (\<lambda>(name, d). (name, deque_append d (projr (dict_get bands name))))
                   (band_buffers (plot_state_init example_init))\<rparr>)) \<and>
   FourBandFilters_init example_design SAMPLE_RATE = Inr example_init \<and>
   (\<exists>st. main example_design [[1, 2, 3], [], [4]] = Inr st \<and>
      length (items (raw_buffer st)) = min BUFFER_SIZE (length (retained [[1, 2, 3], [], [4 :: rat]])) \<and>
      map fst (band_buffers st) = [''delta'', ''alpha'', ''beta'', ''gamma''] \<and>
      list_all (\<lambda>(name, d). length (items d) = min BUFFER_SIZE (length (retained [[1, 2, 3], [], [4 :: rat]])))
        (band_buffers st)) \<and>
   (\<exists>raws st. main_fall example_design example_numpy 0 0 [0, 1, 1] = Inr (raws, st) \<and>
      length raws = length [0, 1, 1 :: rat] \<and>
      length (items (raw_buffer st)) = min BUFFER_SIZE (length [0, 1, 1 :: rat]) \<and>
      map fst (band_buffers st) = [''delta'', ''alpha'', ''beta'', ''gamma''] \<and>
      list_all (\<lambda>(name, d). length (items d) = min BUFFER_SIZE (length [0, 1, 1 :: rat]))
        (band_buffers st))"
  using five_buffers_same_length[of "plot_state_init example_init" 1 example_design example_init
      "[[1, 2, 3], [], [4]]" example_numpy 0 0 "[0, 1, 1]"]
    plot_ok_example example_init_SAMPLE_RATE
  by blast

lemma band_outputs_are_sosfilt:
  assumes "bank_ok fb" and "dict_get (filters fb) name = Inr sos"
    and "apply_each fb xs = Inr (outs, fb')"
  shows "\<exists>z ys z'. dict_get (zi fb) name = Inr z \<and> sosfilt sos xs z = Inr (ys, z') \<and>
           map (\<lambda>out. projr (dict_get out name)) outs = ys"
proof -
  from assms(2) have mem: "(name, sos) \<in> set (filters fb)" by (rule dict_get_Inr_mem)
  with assms(1) obtain z where z: "dict_get (zi fb) name = Inr z"
    by (auto simp: bank_ok_def shapes_ok_iff)
  from apply_each_sosfilt[OF assms(1) mem z, of xs] assms(3) obtain ys z' where
    "sosfilt sos xs z = Inr (ys, z')" and m: "map (\<lambda>out. dict_get out name) outs = map Inr ys"
    by auto
  moreover have "map (\<lambda>out. projr (dict_get out name)) outs = map projr (map (\<lambda>out. dict_get out name) outs)"
    by simp
  then have "map (\<lambda>out. projr (dict_get out name)) outs = ys"
    unfolding m by (simp add: comp_def)
  ultimately show ?thesis using z by blast
qed

lemma main_contents:
  fixes design :: "nat \<Rightarrow> ('a::linordered_field) \<Rightarrow> 'a \<Rightarrow> 'a biquad list"
  assumes "FourBandFilters_init design SAMPLE_RATE = Inr fb"
  shows "\<exists>st. main design batches = Inr st \<and>
           items (raw_buffer st) =
             drop (length (retained batches) - BUFFER_SIZE) (retained batches) \<and>
           (\<forall>name \<in> {''delta'', ''alpha'', ''beta'', ''gamma''}.
              \<exists>sos z ys z' d. dict_get (filters fb) name = Inr sos \<and>
                dict_get (zi fb) name = Inr z \<and>
                sosfilt sos (retained batches) z = Inr (ys, z') \<and>
                dict_get (band_buffers st) name = Inr d \<and>
                items d = drop (length ys - BUFFER_SIZE) ys)"
proof -
  from main_run[OF assms, of batches] obtain outs fb' st where
    ae: "apply_each fb (retained batches) = Inr (outs, fb')"
    and m: "main design batches = Inr st"
    and raw: "items (raw_buffer st) =
        drop (length (retained batches) - BUFFER_SIZE) (retained batches)"
    and bands: "\<forall>name \<in> {''delta'', ''alpha'', ''beta'', ''gamma''}.
              \<exists>d. dict_get (band_buffers st) name = Inr d \<and> maxlen d = BUFFER_SIZE \<and>
                items d = drop (length (retained batches) - BUFFER_SIZE)
                            (map (\<lambda>out. projr (dict_get out name)) outs)"
    by (elim exE conjE) (rule that; assumption)
  note ok = tuned_bank_ok[OF init_tuned[OF assms]]
  note l = apply_each_length[OF ae]
  have "\<exists>sos z ys z' d. dict_get (filters fb) name = Inr sos \<and>
                dict_get (zi fb) name = Inr z \<and>
                sosfilt sos (retained batches) z = Inr (ys, z') \<and>
                dict_get (band_buffers st) name = Inr d \<and>
                items d = drop (length ys - BUFFER_SIZE) ys"
    if n: "name \<in> {''delta'', ''alpha'', ''beta'', ''gamma''}" for name
  proof -
    from n init_keys[OF assms] have "name \<in> set (map fst (filters fb))" by simp
    then obtain sos where mem: "(name, sos) \<in> set (filters fb)" by auto
    from ok have "distinct (map fst (filters fb))" by (simp add: bank_ok_def)
    from dict_get_distinct[OF this mem] have g: "dict_get (filters fb) name = Inr sos" .
    from band_outputs_are_sosfilt[OF ok g ae] obtain z ys z' where
      b: "dict_get (zi fb) name = Inr z" "sosfilt sos (retained batches) z = Inr (ys, z')"
      "map (\<lambda>out. projr (dict_get out name)) outs = ys"
      by blast
    from b(3) l have ly: "length ys = length (retained batches)" by auto
    from bspec[OF bands n] obtain d where d: "dict_get (band_buffers st) name = Inr d"
      "items d = drop (length (retained batches) - BUFFER_SIZE)
                            (map (\<lambda>out. projr (dict_get out name)) outs)"
      by (elim exE conjE) (rule that; assumption)
    have "items d = drop (length ys - BUFFER_SIZE) ys" using d(2) b(3) ly by simp
    with g b(1) b(2) d(1) show ?thesis by (intro exI conjI)
  qed
  then show ?thesis by (intro exI[of _ st] conjI m raw ballI)
qed

text \<open>
  C4. A deque of capacity \<open>N\<close> that has received \<open>M > N\<close> appends holds exactly the last
  \<open>N\<close> of them in arrival order; once it is full, every append evicts the oldest element.
  In \<^verbatim>\<open>main\<close>, after more than \<^verbatim>\<open>BUFFER_SIZE\<close> retained samples, the raw buffer holds the
  last \<^verbatim>\<open>BUFFER_SIZE\<close> samples and every band buffer the last \<^verbatim>\<open>BUFFER_SIZE\<close> outputs of
  that band's filter over the retained samples.
\<close>

theorem buffer_holds_last_N:
  fixes design :: "nat \<Rightarrow> ('a::linordered_field) \<Rightarrow> 'a \<Rightarrow> 'a biquad list"
    and xs :: "'b list" and d :: "'c deque"
  shows "(N < length xs \<longrightarrow>
            items (foldl deque_append (deque_new N) xs) = drop (length xs - N) xs \<and>
            length (items (foldl deque_append (deque_new N) xs)) = N) \<and>
         (0 < maxlen d \<and> length (items d) = maxlen d \<longrightarrow>
            items (deque_append d x) = tl (items d) @ [x]) \<and>
         (FourBandFilters_init design SAMPLE_RATE = Inr fb \<and>
          BUFFER_SIZE < length (retained batches) \<longrightarrow>
            (\<exists>st. main design batches = Inr st \<and>
               items (raw_buffer st) =
                 drop (length (retained batches) - BUFFER_SIZE) (retained batches) \<and>
               length (items (raw_buffer st)) = BUFFER_SIZE \<and>
               (\<forall>name \<in> {''delta'', ''alpha'', ''beta'', ''gamma''}.
                  \<exists>sos z ys z' d. dict_get (filters fb) name = Inr sos \<and>
                    dict_get (zi fb) name = Inr z \<and>
                    sosfilt sos (retained batches) z = Inr (ys, z') \<and>
                    dict_get (band_buffers st) name = Inr d \<and>
                    items d = drop (length ys - BUFFER_SIZE) ys)))"
proof (intro conjI impI)
  assume "N < length xs"
  then show "items (foldl deque_append (deque_new N) xs) = drop (length xs - N) xs"
    and "length (items (foldl deque_append (deque_new N) xs)) = N"
    by (simp_all add: items_foldl_deque_new)
next
  assume "0 < maxlen d \<and> length (items d) = maxlen d"
  then show "items (deque_append d x) = tl (items d) @ [x]"
    by (cases "items d") (auto simp: items_deque_append)
next
  assume a: "FourBandFilters_init design SAMPLE_RATE = Inr fb \<and>
          BUFFER_SIZE < length (retained batches)"
  then have i: "FourBandFilters_init design SAMPLE_RATE = Inr fb"
    and big: "BUFFER_SIZE < length (retained batches)" by simp_all
  from main_contents[OF i, of batches] obtain st where
    st: "main design batches = Inr st"
    "items (raw_buffer st) =
                 drop (length (retained batches) - BUFFER_SIZE) (retained batches)"
    "\<forall>name \<in> {''delta'', ''alpha'', ''beta'', ''gamma''}.
                  \<exists>sos z ys z' d. dict_get (filters fb) name = Inr sos \<and>
                    dict_get (zi fb) name = Inr z \<and>
                    sosfilt sos (retained batches) z = Inr (ys, z') \<and>
                    dict_get (band_buffers st) name = Inr d \<and>
                    items d = drop (length ys - BUFFER_SIZE) ys"
    by (elim exE conjE) (rule that; assumption)
  have len: "length (items (raw_buffer st)) = BUFFER_SIZE" using st(2) big by simp
  show "\<exists>st. main design batches = Inr st \<and>
               items (raw_buffer st) =
                 drop (length (retained batches) - BUFFER_SIZE) (retained batches) \<and>
               length (items (raw_buffer st)) = BUFFER_SIZE \<and>
               (\<forall>name \<in> {''delta'', ''alpha'', ''beta'', ''gamma''}.
                  \<exists>sos z ys z' d. dict_get (filters fb) name = Inr sos \<and>
                    dict_get (zi fb) name = Inr z \<and>
                    sosfilt sos (retained batches) z = Inr (ys, z') \<and>
                    dict_get (band_buffers st) name = Inr d \<and>
                    items d = drop (length ys - BUFFER_SIZE) ys)"
    by (intro exI[of _ st] conjI st len)
qed


theorem buffer_holds_last_N_witness:
  "(2::nat) < length [1, 2, 3 :: int] \<and>
   items (foldl deque_append (deque_new 2) [1, 2, 3 :: int]) = drop (length [1, 2, 3 :: int] - 2) [1, 2, 3] \<and>
   length (items (foldl deque_append (deque_new 2) [1, 2, 3 :: int])) = 2 \<and>
   0 < maxlen \<lparr>maxlen = 2, items = [1, 2 :: int]\<rparr> \<and>
   length (items \<lparr>maxlen = 2, items = [1, 2 :: int]\<rparr>) = maxlen \<lparr>maxlen = 2, items = [1, 2 :: int]\<rparr> \<and>
   items (deque_append \<lparr>maxlen = 2, items = [1, 2 :: int]\<rparr> 3) =
     tl (items \<lparr>maxlen = 2, items = [1, 2 :: int]\<rparr>) @ [3] \<and>
   FourBandFilters_init example_design SAMPLE_RATE = Inr example_init \<and>
   BUFFER_SIZE < length (retained (replicate 2001 [0 :: rat])) \<and>
   (\<exists>st. main example_design (replicate 2001 [0]) = Inr st \<and>
      items (raw_buffer st) =
        drop (length (retained (replicate 2001 [0 :: rat])) - BUFFER_SIZE) (retained (replicate 2001 [0])) \<and>
      length (items (raw_buffer st)) = BUFFER_SIZE \<and>
      (\<forall>name \<in> {''delta'', ''alpha'', ''beta'', ''gamma''}.
         \<exists>sos z ys z' d. dict_get (filters example_init) name = Inr sos \<and>
           dict_get (zi example_init) name = Inr z \<and>
           sosfilt sos (retained (replicate 2001 [0])) z = Inr (ys, z') \<and>
           dict_get (band_buffers st) name = Inr d \<and>
           items d = drop (length ys - BUFFER_SIZE) ys))"
proof -
  note T = buffer_holds_last_N[of 2 "[1, 2, 3 :: int]" "\<lparr>maxlen = 2, items = [1, 2 :: int]\<rparr>" 3
      example_design example_init "replicate 2001 [0]"]
  have h1: "(2::nat) < length [1, 2, 3 :: int]" by simp
  have h2: "0 < maxlen \<lparr>maxlen = 2, items = [1, 2 :: int]\<rparr> \<and>
    length (items \<lparr>maxlen = 2, items = [1, 2 :: int]\<rparr>) = maxlen \<lparr>maxlen = 2, items = [1, 2 :: int]\<rparr>"
    by simp
  have h3: "FourBandFilters_init example_design SAMPLE_RATE = Inr example_init \<and>
    BUFFER_SIZE < length (retained (replicate 2001 [0 :: rat]))"
    by (simp add: example_init_SAMPLE_RATE retained_def BUFFER_SIZE_def)
  note r1 = T[THEN conjunct1, THEN mp, OF h1]
  note r2 = T[THEN conjunct2, THEN conjunct1, THEN mp, OF h2]
  note r3 = T[THEN conjunct2, THEN conjunct2, THEN mp, OF h3]
  show ?thesis
    by (intro conjI h1 h2[THEN conjunct1] h2[THEN conjunct2] h3[THEN conjunct1] h3[THEN conjunct2]
        r1[THEN conjunct1] r1[THEN conjunct2] r2 r3)
qed

lemma same_signal_init:
  "same_signal (main_fall_init fb start1 g) (main_fall_init fb start2 g)"
  by (simp add: same_signal_def main_fall_init_def plot_state.defs)

lemma segment_samples_pos: "0 < segment_samples"
  by (simp add: segment_samples_def SAMPLE_RATE_def)

lemma main_fall_loop_raws:
  fixes st :: "('a::linordered_field, 'g) fall_state"
  assumes "plot_ok st" and "t st = tick_time k"
    and "seg_idx st = (k div segment_samples) mod length seg_names"
    and "seg_count st = k mod segment_samples"
  shows "map_sum id fst (main_fall_loop np st clock) =
           Inr (raw_samples np (generator st) k (length clock))"
  using assms
proof (induction clock arbitrary: st k)
  case Nil
  then show ?case by simp
next
  case (Cons now clock)
  let ?N = segment_samples
  define rg where "rg = compose_raw np (tick_segment k) (tick_time k) (generator st)"
  have len: "0 < length seg_names" by (simp add: seg_names_def)
  then have idx: "seg_idx st < length seg_names" using Cons.prems(3) by simp
  have rg': "compose_raw np (seg_names ! seg_idx st) (t st) (generator st) = rg"
    by (simp add: rg_def tick_segment_def Cons.prems(2,3))
  from process_sample_plot_ok[of "plot_state.truncate st" "fst rg"] Cons.prems(1)
  obtain s1 where s1: "process_sample (plot_state.truncate st) (fst rg) = Inr s1" "plot_ok s1"
    by (auto simp: plot_ok_truncate)
  from main_fall_turn_cases[OF idx, of np now] s1 obtain st' where
    turn: "main_fall_turn np st now = Inr (fst rg, st')"
    and tr: "plot_state.truncate st' = s1"
    and f: "t st' = t st + dt" "generator st' = snd rg"
      "seg_count st' = (if ?N \<le> seg_count st + 1 then 0 else seg_count st + 1)"
      "seg_idx st' = (if ?N \<le> seg_count st + 1
                             then (seg_idx st + 1) mod length seg_names else seg_idx st)"
    unfolding rg' by auto
  have ok': "plot_ok st'" using s1(2) tr plot_ok_truncate by metis
  have t': "t st' = tick_time (Suc k)" using f(1) Cons.prems(2) by simp
  have lt: "k mod ?N < ?N" using segment_samples_pos by simp
  have wrap: "?N \<le> seg_count st + 1 \<longleftrightarrow> Suc (k mod ?N) = ?N"
    using lt Cons.prems(4) by auto
  have c': "seg_count st' = Suc k mod ?N"
    using f(3) wrap Cons.prems(4) by (simp add: mod_Suc)
  have i': "seg_idx st' = (Suc k div ?N) mod length seg_names"
    using f(4) wrap Cons.prems(3) by (simp add: div_Suc mod_Suc mod_Suc_eq)
  from Cons.IH[OF ok' t' i' c', unfolded f(2)]
  have "map_sum id fst (main_fall_loop np st' clock) =
      Inr (raw_samples np (snd rg) (Suc k) (length clock))" .
  then show ?case
    by (cases "main_fall_loop np st' clock")
      (auto simp: turn rg_def[symmetric] case_prod_beta Let_def)
qed

lemma main_fall_raws:
  fixes design :: "nat \<Rightarrow> ('a::linordered_field) \<Rightarrow> 'a \<Rightarrow> 'a biquad list"
  assumes "FourBandFilters_init design SAMPLE_RATE = Inr fb"
  shows "map_sum id fst (main_fall design np g start clock) =
           Inr (raw_samples np g 0 (length clock))"
proof -
  have ok: "plot_ok (main_fall_init fb start g)"
    using plot_ok_init[OF assms] plot_ok_truncate[of "main_fall_init fb start g"]
    by (simp add: main_fall_init_facts)
  have f: "t (main_fall_init fb start g) = tick_time 0"
    "seg_idx (main_fall_init fb start g) = (0 div segment_samples) mod length seg_names"
    "seg_count (main_fall_init fb start g) = 0 mod segment_samples"
    "generator (main_fall_init fb start g) = g"
    by (simp_all add: main_fall_init_def plot_state.defs)
  from main_fall_loop_raws[OF ok f(1,2,3), of np clock] show ?thesis
    using assms by (simp add: main_fall_def f(4))
qed

lemma main_fall_same_clock_free:
  fixes design :: "nat \<Rightarrow> ('a::linordered_field) \<Rightarrow> 'a \<Rightarrow> 'a biquad list"
  assumes "length clock1 = length clock2"
  shows "map_sum id fst (main_fall design np g start1 clock1) =
           map_sum id fst (main_fall design np g start2 clock2)"
proof (cases "FourBandFilters_init design SAMPLE_RATE")
  case (Inl e)
  then show ?thesis by (simp add: main_fall_def)
next
  case (Inr fb)
  from main_fall_loop_same[OF assms same_signal_init, of np fb start1 g start2]
  show ?thesis by (simp add: main_fall_def Inr)
qed

text \<open>
  C8 (as amended). \<^verbatim>\<open>main_fall\<close> has no seed and never seeds NumPy: its noise comes from
  the state \<open>g\<close> the global generator happens to be in when the function starts. Given that
  state, a run is determined: once the constructor has returned, the raw sample of tick
  \<open>k\<close> is the one composed for segment \<open>(k div 2000) mod 3\<close> at \<open>k\<close> steps of \<open>dt\<close> with
  the \<open>k\<close>-th draw of the generator, for any number of ticks (so for the 6000 of one full
  cycle), and two runs from the same generator state give the same raw samples whatever
  their clocks read.
\<close>

theorem raw_samples_given_generator_state:
  fixes design :: "nat \<Rightarrow> ('a::linordered_field) \<Rightarrow> 'a \<Rightarrow> 'a biquad list"
  shows "(FourBandFilters_init design SAMPLE_RATE = Inr fb \<longrightarrow>
            map_sum id fst (main_fall design np g start clock) =
              Inr (raw_samples np g 0 (length clock))) \<and>
         (length clock1 = length clock2 \<longrightarrow>
            map_sum id fst (main_fall design np g start1 clock1) =
              map_sum id fst (main_fall design np g start2 clock2))"
  using main_fall_raws[of design fb np g start clock]
    main_fall_same_clock_free[of clock1 clock2 design np g start1 start2]
  by blast

theorem raw_samples_given_generator_state_witness:
  "FourBandFilters_init example_design SAMPLE_RATE = Inr example_init \<and>
   map_sum id fst (main_fall example_design example_numpy 0 0 [0, 1, 1]) =
     Inr (raw_samples example_numpy 0 0 (length [0, 1, 1 :: rat])) \<and>
   length [0, 1, 1 :: rat] = length [7, 7, 9 :: rat] \<and>
   map_sum id fst (main_fall example_design example_numpy 0 0 [0, 1, 1]) =
     map_sum id fst (main_fall example_design example_numpy 0 5 [7, 7, 9])"
proof -
  note T = raw_samples_given_generator_state[of example_design example_init example_numpy 0 0
      "[0, 1, 1]" "[0, 1, 1]" "[7, 7, 9]" 0 5]
  have h: "length [0, 1, 1 :: rat] = length [7, 7, 9 :: rat]" by simp
  show ?thesis
    by (intro conjI example_init_SAMPLE_RATE T[THEN conjunct1, THEN mp, OF example_init_SAMPLE_RATE]
        h T[THEN conjunct2, THEN mp, OF h])
qed

text \<open>
  C8 as stated fails: the code has no seed to hold fixed. Two runs of \<^verbatim>\<open>main_fall\<close> with
  the same design, the same NumPy functions and the same clock, which found the global
  generator in different states, give different raw samples at tick 0.
\<close>

theorem unseeded_runs_differ:
  "map_sum id fst (main_fall example_design example_numpy 0 0 [0]) = Inr [75 / 2] \<and>
   map_sum id fst (main_fall example_design example_numpy 1 0 [0]) = Inr [85 / 2] \<and>
   map_sum id fst (main_fall example_design example_numpy 0 0 [0]) \<noteq>
     map_sum id fst (main_fall example_design example_numpy 1 0 [0])"
proof -
  have seg: "tick_segment 0 = ''low''"
    by (simp add: tick_segment_def seg_names_def)
  have r0: "raw_samples example_numpy 0 0 (length [0 :: rat]) = [75 / 2]"
    by (simp add: seg compose_raw_def amplitudes_def example_numpy_def Let_def)
  have r1: "raw_samples example_numpy 1 0 (length [0 :: rat]) = [85 / 2]"
    by (simp add: seg compose_raw_def amplitudes_def example_numpy_def Let_def)
  have a: "map_sum id fst (main_fall example_design example_numpy 0 0 [0]) = Inr [75 / 2]"
    using main_fall_raws[OF example_init_SAMPLE_RATE, of example_numpy 0 0 "[0]"]
    by (simp only: r0)
  have b: "map_sum id fst (main_fall example_design example_numpy 1 0 [0]) = Inr [85 / 2]"
    using main_fall_raws[OF example_init_SAMPLE_RATE, of example_numpy 1 0 "[0]"]
    by (simp only: r1)
  show ?thesis unfolding a b by simp
qed

section \<open>The two consumers and the queue\<close>

lemma deque_append_nonempty: "0 < maxlen d \<Longrightarrow> items (deque_append d x) \<noteq> []"
  by (cases "items d") (auto simp: items_deque_append)

lemma compute_moving_average_ok:
  "0 < maxlen w \<Longrightarrow> \<exists>avg. compute_moving_average w x = Inr (avg, deque_append w x)"
  using deque_append_nonempty[of w x]
  by (simp add: compute_moving_average_def Let_def pf_div_def)

lemma poll_drain_ok:
  "0 < maxlen w \<Longrightarrow>
     \<exists>smooth. poll_drain q w r s u =
       Inr (foldl deque_append w q, (if q = [] then r else Some (last q)), smooth, (u \<or> q \<noteq> [])) \<and>
       (q \<noteq> [] \<longrightarrow> smooth \<noteq> None)"
proof (induction q arbitrary: w r s u)
  case Nil
  then show ?case by simp
next
  case (Cons x q)
  from compute_moving_average_ok[OF Cons.prems, of x] obtain avg where
    a: "compute_moving_average w x = Inr (avg, deque_append w x)" by blast
  have "0 < maxlen (deque_append w x)" using Cons.prems by (simp add: maxlen_deque_append)
  from Cons.IH[OF this, of "Some x" "Some avg" True] obtain smooth where
    "poll_drain q (deque_append w x) (Some x) (Some avg) True =
       Inr (foldl deque_append (deque_append w x) q, (if q = [] then Some x else Some (last q)), smooth, True)"
    "q \<noteq> [] \<longrightarrow> smooth \<noteq> None"
    by auto
  moreover have "q = [] \<Longrightarrow> smooth = Some avg"
    using calculation(1) by simp
  ultimately show ?case using a by (cases "q = []") auto
qed

lemma poll_queue_and_update_eq:
  assumes "0 < maxlen (window st)" and "queue (bulb_queue st) \<noteq> []"
  shows "poll_queue_and_update st =
     (case map_to_brightness (pf_abs (last (queue (bulb_queue st)))) THRESHOLD MAX_SIGNAL of
        Inl e \<Rightarrow> Inl e
      | Inr level \<Rightarrow>
          Inr \<lparr>window = foldl deque_append (window st) (queue (bulb_queue st)),
               bulb_queue = (bulb_queue st)\<lparr>queue := []\<rparr>,
               brightness_level = max 0 (min 10 level)\<rparr>)"
proof -
  from poll_drain_ok[OF assms(1), of "queue (bulb_queue st)" None None False] assms(2)
  obtain smooth where
    "poll_drain (queue (bulb_queue st)) (window st) None None False =
       Inr (foldl deque_append (window st) (queue (bulb_queue st)),
            Some (last (queue (bulb_queue st))), Some smooth, True)"
    by auto
  then show ?thesis
    by (simp add: poll_queue_and_update_def Let_def USE_SMOOTH_def set_brightness_def
        split: sum.splits)
qed

lemma process_sample_sample_count:
  "process_sample st x = Inr st' \<Longrightarrow> sample_count st' = sample_count st"
  by (auto simp: process_sample_def Let_def split: sum.splits prod.splits)

lemma main_loop_sample_count:
  "maxsize (reader_queue st) \<le> 0 \<Longrightarrow> queue (reader_queue st) = [] \<Longrightarrow>
     main_loop st batches = Inr st' \<Longrightarrow>
     sample_count st' = sample_count st + int (length (retained batches))"
proof (induction batches arbitrary: st)
  case Nil
  then show ?case by (simp add: retained_def)
next
  case (Cons b bs)
  let ?q = "reader_queue st"
  have pa: "put_all ?q b = ?q\<lparr>queue := b\<rparr>" using Cons.prems by (simp add: put_all_unbounded)
  show ?case
  proof (cases "b = []")
    case True
    have "main_turn (st\<lparr>reader_queue := put_all ?q b\<rparr>) = Inr st"
      using Cons.prems True by (simp add: main_turn_def pa read_latest_eq)
    with Cons.prems(3) have "main_loop st bs = Inr st'" by simp
    from Cons.IH[OF Cons.prems(1,2) this] show ?thesis using True by (simp add: retained_def)
  next
    case False
    have st: "st\<lparr>reader_queue := ?q\<lparr>queue := []\<rparr>\<rparr> = st" using Cons.prems by simp
    have mt: "main_turn (st\<lparr>reader_queue := put_all ?q b\<rparr>) =
        (case process_sample st (last b) of Inl e \<Rightarrow> Inl e
         | Inr s1 \<Rightarrow> Inr (s1\<lparr>sample_count := sample_count s1 + 1\<rparr>))"
      using False st by (simp add: main_turn_def pa read_latest_eq)
    from Cons.prems(3) mt obtain s1 where ps: "process_sample st (last b) = Inr s1"
      and rest: "main_loop (s1\<lparr>sample_count := sample_count s1 + 1\<rparr>) bs = Inr st'"
      by (cases "process_sample st (last b)") auto
    from process_sample_reader_queue[OF ps] Cons.prems
    have q: "maxsize (reader_queue (s1\<lparr>sample_count := sample_count s1 + 1\<rparr>)) \<le> 0"
      "queue (reader_queue (s1\<lparr>sample_count := sample_count s1 + 1\<rparr>)) = []"
      by simp_all
    from Cons.IH[OF q rest] process_sample_sample_count[OF ps] False
    show ?thesis by (simp add: retained_def)
  qed
qed

text \<open>
  C3 (as amended). It is the four-band consumer that keeps only the newest sample:
  \<^verbatim>\<open>read_latest\<close> empties the queue and returns its last item, so a run of \<^verbatim>\<open>main\<close> filters
  and buffers exactly the last sample of every batch that arrived between two turns. The
  bulb's consumer passes every queued sample, in arrival order, through the moving-average
  window, and sets the brightness from the newest raw value alone.
\<close>

theorem consumers_keep_latest_or_all:
  fixes st :: "('a::{plus,minus,times}) main_state"
  shows "read_latest q =
           (if queue q = [] then None else Some (last (queue q)), q\<lparr>queue := []\<rparr>) \<and>
         (maxsize (reader_queue st) \<le> 0 \<and> queue (reader_queue st) = [] \<longrightarrow>
            map_sum id plot_state.truncate (main_loop st batches) =
              process_all (plot_state.truncate st) (retained batches)) \<and>
         (0 < maxlen (window b) \<and> queue (bulb_queue b) \<noteq> [] \<longrightarrow>
            poll_queue_and_update b =
              (case map_to_brightness (pf_abs (last (queue (bulb_queue b)))) THRESHOLD MAX_SIGNAL of
                 Inl e \<Rightarrow> Inl e
               | Inr level \<Rightarrow>
                   Inr \<lparr>window = foldl deque_append (window b) (queue (bulb_queue b)),
                        bulb_queue = (bulb_queue b)\<lparr>queue := []\<rparr>,
                        brightness_level = max 0 (min 10 level)\<rparr>))"
  using read_latest_eq[of q] main_loop_retained[of st batches] poll_queue_and_update_eq[of b]
  by blast

theorem consumers_keep_latest_or_all_witness:
  "maxsize (reader_queue (main_init example_init)) \<le> 0 \<and>
   queue (reader_queue (main_init example_init)) = [] \<and>
   map_sum id plot_state.truncate (main_loop (main_init example_init) [[1, 2, 3], [], [4]]) =
     process_all (plot_state.truncate (main_init example_init)) (retained [[1, 2, 3], [], [4]]) \<and>
   0 < maxlen (window (bulb_init\<lparr>bulb_queue := put_all (Queue_init 0) [Fin 1, Fin 2, Fin 310]\<rparr>)) \<and>
   queue (bulb_queue (bulb_init\<lparr>bulb_queue := put_all (Queue_init 0) [Fin 1, Fin 2, Fin 310]\<rparr>)) \<noteq> [] \<and>
   poll_queue_and_update (bulb_init\<lparr>bulb_queue := put_all (Queue_init 0) [Fin 1, Fin 2, Fin 310]\<rparr>) =
     Inr \<lparr>window = \<lparr>maxlen = 8, items = [Fin 1, Fin 2, Fin 310]\<rparr>,
          bulb_queue = \<lparr>maxsize = 0, queue = []\<rparr>, brightness_level = 5\<rparr>"
proof -
  let ?b = "bulb_init\<lparr>bulb_queue := put_all (Queue_init 0) [Fin 1, Fin 2, Fin 310]\<rparr>"
  note T = consumers_keep_latest_or_all[of "Queue_init 0 :: rat Queue" "main_init example_init"
      "[[1, 2, 3], [], [4]]" ?b]
  have h1: "maxsize (reader_queue (main_init example_init)) \<le> 0 \<and>
    queue (reader_queue (main_init example_init)) = []"
    using main_init_queue[of example_init] by simp
  have h2: "0 < maxlen (window ?b) \<and> queue (bulb_queue ?b) \<noteq> []"
    by (simp add: bulb_init_def deque_new_def SMOOTH_WINDOW_def put_def qsize_def Queue_init_def)
  note r1 = T[THEN conjunct2, THEN conjunct1, THEN mp, OF h1]
  note r2 = T[THEN conjunct2, THEN conjunct2, THEN mp, OF h2]
  have m: "map_to_brightness (Fin 310) THRESHOLD MAX_SIGNAL = Inr 5"
    by (simp add: map_to_brightness_def THRESHOLD_def MAX_SIGNAL_def pf_sub_def pf_div_def Let_def
        pf_fin_small)
  have w: "foldl deque_append (deque_new SMOOTH_WINDOW) [Fin 1, Fin 2, Fin 310] =
      \<lparr>maxlen = 8, items = [Fin 1, Fin 2, Fin 310]\<rparr>"
    by (simp add: deque_new_def SMOOTH_WINDOW_def deque_append_def)
  have r2': "poll_queue_and_update ?b =
     Inr \<lparr>window = \<lparr>maxlen = 8, items = [Fin 1, Fin 2, Fin 310]\<rparr>,
          bulb_queue = \<lparr>maxsize = 0, queue = []\<rparr>, brightness_level = 5\<rparr>"
    unfolding r2 by (simp add: bulb_init_def put_def qsize_def Queue_init_def m deque_new_def SMOOTH_WINDOW_def deque_append_def)
  show ?thesis
    by (intro conjI h1[THEN conjunct1] h1[THEN conjunct2] r1 h2[THEN conjunct1] h2[THEN conjunct2] r2')
qed

text \<open>
  C3 as stated fails on both sides. Three samples wait in the queue of the four-band
  script: one turn of \<^verbatim>\<open>main\<close> buffers the last one only and counts one sample, the other
  two are dropped unfiltered. The same three wait in the bulb's queue: all three are in
  its smoothing window after one poll.
\<close>

theorem four_band_drops_bulb_does_not:
  "map_sum id (\<lambda>st. (items (raw_buffer st), sample_count st)) (main example_design [[1, 2, 3]]) =
     Inr ([3], 1) \<and>
   map_sum id (\<lambda>b. items (window b))
     (poll_queue_and_update (bulb_init\<lparr>bulb_queue := put_all (Queue_init 0) [Fin 1, Fin 2, Fin 310]\<rparr>)) =
     Inr [Fin 1, Fin 2, Fin 310]"
proof
  let ?b = "bulb_init\<lparr>bulb_queue := put_all (Queue_init 0) [Fin 1, Fin 2, Fin 310]\<rparr>"
  have h2: "0 < maxlen (window ?b)" "queue (bulb_queue ?b) \<noteq> []"
    by (simp_all add: bulb_init_def deque_new_def SMOOTH_WINDOW_def put_def qsize_def Queue_init_def)
  have m: "map_to_brightness (Fin 310) THRESHOLD MAX_SIGNAL = Inr 5"
    by (simp add: map_to_brightness_def THRESHOLD_def MAX_SIGNAL_def pf_sub_def pf_div_def Let_def
        pf_fin_small)
  have w: "foldl deque_append (deque_new SMOOTH_WINDOW) [Fin 1, Fin 2, Fin 310] =
      \<lparr>maxlen = 8, items = [Fin 1, Fin 2, Fin 310]\<rparr>"
    by (simp add: deque_new_def SMOOTH_WINDOW_def deque_append_def)
  show "map_sum id (\<lambda>b. items (window b)) (poll_queue_and_update ?b) = Inr [Fin 1, Fin 2, Fin 310]"
    unfolding poll_queue_and_update_eq[OF h2] by (simp add: bulb_init_def put_def qsize_def Queue_init_def m deque_new_def SMOOTH_WINDOW_def deque_append_def)
next
  have q: "put_all (reader_queue (main_init example_init)) [1, 2, 3] =
      \<lparr>maxsize = 0, queue = [1, 2, 3 :: rat]\<rparr>"
    by (simp add: main_init_def plot_state.defs put_def qsize_def Queue_init_def)
  from process_sample_ok[OF plot_ok_example, of 3] obtain bands fb' where
    ps: "process_sample (plot_state_init example_init) 3 =
      Inr ((plot_state_init example_init)\<lparr>bank := fb',
              raw_buffer := deque_append (raw_buffer (plot_state_init example_init)) 3,
              band_buffers :=
                map (\<lambda>(name, d). (name, deque_append d (projr (dict_get bands name))))
                  (band_buffers (plot_state_init example_init))\<rparr>)"
    by blast
  have tr: "map_sum id plot_state.truncate (main_loop (main_init example_init) [[1, 2, 3]]) =
      process_all (plot_state_init example_init) [3]"
    using main_loop_init[of example_init "[[1, 2, 3]]"] by (simp add: retained_def)
  then obtain st where ml: "main_loop (main_init example_init) [[1, 2, 3]] = Inr st"
    and st: "plot_state.truncate st = (plot_state_init example_init)\<lparr>bank := fb',
              raw_buffer := deque_append (raw_buffer (plot_state_init example_init)) 3,
              band_buffers :=
                map (\<lambda>(name, d). (name, deque_append d (projr (dict_get bands name))))
                  (band_buffers (plot_state_init example_init))\<rparr>"
    by (cases "main_loop (main_init example_init) [[1, 2, 3]]") (auto simp: ps)
  have raw: "items (raw_buffer st) = [3]"
    using arg_cong[OF st, of raw_buffer]
    by (simp add: truncate_fields plot_state_init_def deque_new_def deque_append_def BUFFER_SIZE_def)
  have cnt: "sample_count st = 1"
    using main_loop_sample_count[OF main_init_queue ml]
    by (simp add: retained_def main_init_def plot_state.defs)
  show "map_sum id (\<lambda>st. (items (raw_buffer st), sample_count st)) (main example_design [[1, 2, 3]]) =
     Inr ([3], 1)"
  proof -
    have "main example_design [[1, 2, 3]] = main_loop (main_init example_init) [[1, 2, 3]]"
      by (simp only: main_def example_init_SAMPLE_RATE sum.case)
    then have "main example_design [[1, 2, 3]] = Inr st" by (simp only: ml)
    then show ?thesis by (simp add: raw cnt)
  qed
qed

lemma foldl_channel_step_puts:
  "maxsize q \<le> 0 \<Longrightarrow> foldl channel_step q (map Put xs) = q\<lparr>queue := queue q @ xs\<rparr>"
  by (induction xs arbitrary: q) (auto simp: put_def)

lemma channel_run_puts: "qsize (channel_run (map Put xs)) = length xs"
  by (simp add: channel_run_def foldl_channel_step_puts Queue_init_def qsize_def)

text \<open>
  C5 (as amended). The hand-off channel of both scripts is \<^verbatim>\<open>queue.Queue()\<close>, whose
  \<open>maxsize\<close> is 0: it has no capacity bound. A \<^verbatim>\<open>put\<close> never waits and adds one item, so
  \<open>k\<close> puts with no drain in between leave \<open>k\<close> items queued; only the consumer's drain
  brings the size back to 0.
\<close>

theorem channel_is_unbounded:
  "maxsize (Queue_init 0 :: 'a Queue) = 0 \<and>
   (maxsize q \<le> 0 \<longrightarrow> (\<exists>q'. put q x = Some q' \<and> qsize q' = Suc (qsize q))) \<and>
   qsize (channel_run (map Put xs)) = length xs \<and>
   qsize (snd (read_latest q)) = 0"
proof (intro conjI impI)
  show "maxsize (Queue_init 0 :: 'a Queue) = 0" by (simp add: Queue_init_def)
  show "qsize (channel_run (map Put xs)) = length xs" by (rule channel_run_puts)
  show "qsize (snd (read_latest q)) = 0" by (simp add: read_latest_eq qsize_def)
  assume "maxsize q \<le> 0"
  then show "\<exists>q'. put q x = Some q' \<and> qsize q' = Suc (qsize q)"
    by (simp add: put_def qsize_def)
qed

theorem channel_is_unbounded_witness:
  "maxsize (Queue_init 0 :: int Queue) = 0 \<and>
   maxsize (Queue_init 0 :: int Queue) \<le> 0 \<and>
   (\<exists>q'. put (Queue_init 0) (7 :: int) = Some q' \<and> qsize q' = Suc (qsize (Queue_init 0 :: int Queue))) \<and>
   qsize (channel_run (map Put [1, 2, 3 :: int])) = length [1, 2, 3 :: int] \<and>
   qsize (snd (read_latest (Queue_init 0 :: int Queue))) = 0"
proof -
  note T = channel_is_unbounded[of "Queue_init 0 :: int Queue" 7 "[1, 2, 3]"]
  have h: "maxsize (Queue_init 0 :: int Queue) \<le> 0" by (simp add: Queue_init_def)
  from T h show ?thesis by blast
qed

text \<open>
  C5 as stated fails: no number bounds the queue's size over the reachable states. For
  any bound \<open>B\<close>, \<open>B + 1\<close> puts in a row reach a state with \<open>B + 1\<close> queued samples.
\<close>

theorem channel_has_no_bound:
  "\<not> (\<exists>B. \<forall>ops :: int channel_op list. qsize (channel_run ops) \<le> B)"
proof
  assume "\<exists>B. \<forall>ops :: int channel_op list. qsize (channel_run ops) \<le> B"
  then obtain B where b: "\<And>ops :: int channel_op list. qsize (channel_run ops) \<le> B" by blast
  have "qsize (channel_run (map Put (replicate (Suc B) (0 :: int)))) = Suc B"
    by (simp only: channel_run_puts length_replicate)
  with b[of "map Put (replicate (Suc B) 0)"] show False
    by (metis Suc_n_not_le_n)
qed

section \<open>The readers' parse step\<close>

text \<open>
  C6. A turn of either reader's loop never raises. A line that is empty once stripped, or
  whose text (its first field, when it has a comma) \<^verbatim>\<open>float\<close> rejects, is skipped and the
  queue stays as it is; otherwise the value \<^verbatim>\<open>float\<close> reads from the line, or from its
  first field when it has a comma, is put at the end of the queue.
\<close>

theorem reader_turn_skips_or_enqueues:
  "(\<forall>e. read_loop_turn float_of rl \<noteq> Raised e) \<and>
   serial_reader_turn float_of rl = read_loop_turn float_of rl \<and>
   (strip raw = [] \<longrightarrow> read_loop_turn float_of (Inr raw) = Skipped) \<and>
   (strip raw \<noteq> [] \<and> CHR '','' \<notin> set (strip raw) \<longrightarrow>
      read_loop_turn float_of (Inr raw) =
        (case float_of (strip raw) of None \<Rightarrow> Skipped | Some val \<Rightarrow> Enqueued val)) \<and>
   (strip raw \<noteq> [] \<and> CHR '','' \<in> set (strip raw) \<longrightarrow>
      read_loop_turn float_of (Inr raw) =
        (case float_of (first_field (strip raw)) of None \<Rightarrow> Skipped | Some val \<Rightarrow> Enqueued val)) \<and>
   turn_queue q Skipped = q \<and>
   (maxsize q \<le> 0 \<longrightarrow> turn_queue q (Enqueued v) = q\<lparr>queue := queue q @ [v]\<rparr>)"
proof (intro conjI impI allI)
  fix e show "read_loop_turn float_of rl \<noteq> Raised e"
    by (auto simp: read_loop_turn_def parse_line_def Let_def split: sum.splits option.splits)
  show "serial_reader_turn float_of rl = read_loop_turn float_of rl"
    by (simp add: serial_reader_turn_def read_loop_turn_def)
  show "turn_queue q Skipped = q" by (simp add: turn_queue_def)
next
  assume "strip raw = []"
  then show "read_loop_turn float_of (Inr raw) = Skipped" by (simp add: read_loop_turn_def)
next
  assume "strip raw \<noteq> [] \<and> CHR '','' \<notin> set (strip raw)"
  then show "read_loop_turn float_of (Inr raw) =
        (case float_of (strip raw) of None \<Rightarrow> Skipped | Some val \<Rightarrow> Enqueued val)"
    by (simp add: read_loop_turn_def parse_line_def Let_def split: option.splits)
next
  assume "strip raw \<noteq> [] \<and> CHR '','' \<in> set (strip raw)"
  then show "read_loop_turn float_of (Inr raw) =
        (case float_of (first_field (strip raw)) of None \<Rightarrow> Skipped | Some val \<Rightarrow> Enqueued val)"
    by (simp add: read_loop_turn_def parse_line_def Let_def split: option.splits)
next
  assume "maxsize q \<le> 0"
  then show "turn_queue q (Enqueued v) = q\<lparr>queue := queue q @ [v]\<rparr>"
    by (simp add: turn_queue_def put_def)
qed

lemma strip_examples:
  "strip ''   '' = []" "strip '' 42 '' = ''42''" "strip ''  12,abc '' = ''12,abc''"
  "strip ''hello'' = ''hello''"
  by (simp_all add: strip_def isspace_def)

lemma example_float_examples:
  "example_float ''42'' = Some 42" "example_float ''12'' = Some 12"
  "example_float ''hello'' = None"
  by (simp_all add: example_float_def digit_value_def)

theorem reader_turn_skips_or_enqueues_witness:
  "strip ''   '' = [] \<and> read_loop_turn example_float (Inr ''   '') = Skipped \<and>
   strip '' 42 '' \<noteq> [] \<and> CHR '','' \<notin> set (strip '' 42 '') \<and>
   read_loop_turn example_float (Inr '' 42 '') = Enqueued 42 \<and>
   strip ''hello'' \<noteq> [] \<and> CHR '','' \<notin> set (strip ''hello'') \<and>
   read_loop_turn example_float (Inr ''hello'') = Skipped \<and>
   strip ''  12,abc '' \<noteq> [] \<and> CHR '','' \<in> set (strip ''  12,abc '') \<and>
   read_loop_turn example_float (Inr ''  12,abc '') = Enqueued 12 \<and>
   maxsize (Queue_init 0 :: int Queue) \<le> 0 \<and>
   turn_queue (Queue_init 0) (Enqueued (12 :: int)) = \<lparr>maxsize = 0, queue = [12]\<rparr>"
proof -
  note T1 = reader_turn_skips_or_enqueues[of example_float "Inr ''   ''" "''   ''" "Queue_init 0 :: int Queue" 12]
  note T2 = reader_turn_skips_or_enqueues[of example_float "Inr '' 42 ''" "'' 42 ''" "Queue_init 0 :: int Queue" 12]
  note T3 = reader_turn_skips_or_enqueues[of example_float "Inr ''hello''" "''hello''" "Queue_init 0 :: int Queue" 12]
  note T4 = reader_turn_skips_or_enqueues[of example_float "Inr ''  12,abc ''" "''  12,abc ''" "Queue_init 0 :: int Queue" 12]
  have q: "maxsize (Queue_init 0 :: int Queue) \<le> 0" by (simp add: Queue_init_def)
  have f: "first_field ''12,abc'' = ''12''" by (simp add: first_field_def)
  from T1 T2 T3 T4 q show ?thesis
    by (simp add: strip_examples example_float_examples f Queue_init_def)
qed

section \<open>\<^verbatim>\<open>map_to_brightness\<close>\<close>

lemma map_to_brightness_finite:
  assumes "in_float_range v"
  shows "\<exists>l. map_to_brightness (Fin v) THRESHOLD MAX_SIGNAL = Inr l \<and> 0 \<le> l \<and> l \<le> 10 \<and>
             (v \<le> 120 \<longrightarrow> l = 0)"
proof (cases "v \<le> 120")
  case True
  then show ?thesis by (simp add: map_to_brightness_def THRESHOLD_def)
next
  case False
  define x where "x = v - 120"
  define L :: rat where "L = of_int float_limit"
  from False assms have x: "0 < x" "x < L"
    by (simp_all add: x_def L_def in_float_range_def)
  have b: "\<bar>x\<bar> < L" "\<bar>x / 380\<bar> < L" "\<bar>x / 38\<bar> < L" "\<bar>x / 380 * 10\<bar> < L"
    using x by (simp_all add: field_simps abs_if)
  have b380: "\<bar>380 :: rat\<bar> < L"
    using in_float_range_small[of 380] by (simp add: in_float_range_def L_def)
  have "map_to_brightness (Fin v) THRESHOLD MAX_SIGNAL =
      Inr (let level = \<lfloor>x / 38\<rfloor>; level = (if level < 0 then 0 else level)
           in if 10 < level then 10 else level)"
    using False x(1) b b380
    by (simp add: map_to_brightness_def THRESHOLD_def MAX_SIGNAL_def pf_sub_def pf_div_def
        pf_fin_def in_float_range_def L_def[symmetric] x_def[symmetric] Let_def)
  then show ?thesis using False by (simp add: Let_def)
qed

lemma map_to_brightness_no_zero_division:
  "map_to_brightness v th m \<noteq> Inl ZeroDivisionError"
  by (cases "pf_quot (pf_sub v th) (if pf_sub m th \<noteq> Fin 0 then pf_sub m th else Fin 1)";
      cases "pf_mul (pf_quot (pf_sub v th) (if pf_sub m th \<noteq> Fin 0 then pf_sub m th else Fin 1)) (Fin 10)")
     (auto simp: map_to_brightness_def pf_div_def Let_def split: sum.splits)

text \<open>
  C10 fails on the code at a non-finite input. \<^verbatim>\<open>float("inf")\<close> is a value the serial
  reader enqueues for the line \<^verbatim>\<open>inf\<close>; its absolute value is above the threshold, the
  normalised value is infinite and \<^verbatim>\<open>int(normalized * 10.0)\<close> raises
  \<^verbatim>\<open>OverflowError\<close> (\<^verbatim>\<open>ValueError\<close> for \<^verbatim>\<open>nan\<close>) before either clamp is reached. The
  exception leaves \<^verbatim>\<open>poll_queue_and_update\<close> before its last statement, which would have
  scheduled the next poll.
\<close>

theorem map_to_brightness_raises_on_inf:
  "map_to_brightness PosInf THRESHOLD MAX_SIGNAL = Inl OverflowError \<and>
   map_to_brightness NaN THRESHOLD MAX_SIGNAL = Inl ValueError \<and>
   poll_queue_and_update (bulb_init\<lparr>bulb_queue := \<lparr>maxsize = 0, queue = [NegInf]\<rparr>\<rparr>) =
     Inl OverflowError"
  by (simp add: map_to_brightness_def THRESHOLD_def MAX_SIGNAL_def pf_sub_def pf_div_def Let_def
      poll_queue_and_update_def compute_moving_average_def bulb_init_def deque_new_def
      deque_append_def SMOOTH_WINDOW_def py_sum_def USE_SMOOTH_def pf_fin_small)

end
